theory Spec2Isabelle
  imports Complex_Main "HOL-Library.Word"
begin

section \<open>Boundary extraction: \<open>mask_to_boundary\<close>\<close>

text \<open>
  A mask is a two-dimensional numpy array of dtype uint8, kept row by row:
  \<open>m ! i ! j\<close> is the pixel in row \<open>i\<close> and column \<open>j\<close>. Arithmetic on pixels is
  arithmetic on 8-bit words, so a subtraction that went below zero would wrap around.
  \<open>dilation_ratio\<close> is a Python float; it is read here as the real number it denotes
  (the rounding error of the product and the values nan and inf are outside this model).
\<close>

type_synonym u8 = "8 word"
type_synonym mask = "u8 list list"

definition width :: "mask \<Rightarrow> nat" where
  "width m = (case m of [] \<Rightarrow> 0 | r # _ \<Rightarrow> length r)"

text \<open>\<open>is_mask h w m\<close>: the array \<open>m\<close> has shape \<open>(h, w)\<close>.\<close>

definition is_mask :: "nat \<Rightarrow> nat \<Rightarrow> mask \<Rightarrow> bool" where
  "is_mask h w m = (length m = h \<and> list_all (\<lambda>r. length r = w) m)"


text \<open>
  Python's \<open>round\<close> on a float: to the nearest integer, a tie going to the even one.
\<close>

definition py_round :: "real \<Rightarrow> int" where
  "py_round x =
     (let f = \<lfloor>x\<rfloor>; d = x - of_int f
      in if d < 1 / 2 then f
         else if 1 / 2 < d then f + 1
         else if even f then f else f + 1)"

text \<open>
  \<open>cv2.copyMakeBorder(src, top, bottom, left, right, cv2.BORDER_CONSTANT, value)\<close>:
  the source framed by rows and columns of the constant \<open>value\<close>.
\<close>

definition copyMakeBorder :: "mask \<Rightarrow> nat \<Rightarrow> nat \<Rightarrow> nat \<Rightarrow> nat \<Rightarrow> u8 \<Rightarrow> mask" where
  "copyMakeBorder src n_top n_bottom n_left n_right v =
     (let blank = replicate (n_left + width src + n_right) v
      in replicate n_top blank
         @ map (\<lambda>r. replicate n_left v @ r @ replicate n_right v) src
         @ replicate n_bottom blank)"

text \<open>\<open>np.ones((r, c), dtype=np.uint8)\<close>.\<close>

definition np_ones :: "nat \<Rightarrow> nat \<Rightarrow> mask" where
  "np_ones r c = replicate r (replicate c 1)"

text \<open>
  \<open>cv2.erode(src, kernel, iterations=n)\<close> with its default anchor (the kernel's centre)
  and its default border: each pass replaces a pixel by the minimum of the pixels under
  the non-zero kernel elements, and a position outside the image does not lower that
  minimum (it reads as the largest value, 255).
\<close>

definition px :: "mask \<Rightarrow> int \<Rightarrow> int \<Rightarrow> u8" where
  "px m i j =
     (if 0 \<le> i \<and> i < int (length m) \<and> 0 \<le> j \<and> j < int (length (m ! nat i))
      then m ! nat i ! nat j else 255)"

definition kernel_offsets :: "mask \<Rightarrow> (int \<times> int) list" where
  "kernel_offsets k =
     concat (map (\<lambda>a. concat (map (\<lambda>b.
         if k ! a ! b \<noteq> 0
         then [(int a - int (length k div 2), int b - int (width k div 2))]
         else [])
       [0..<width k])) [0..<length k])"

definition erode_pass :: "(int \<times> int) list \<Rightarrow> mask \<Rightarrow> mask" where
  "erode_pass offs m =
     map (\<lambda>i. map (\<lambda>j. fold (\<lambda>(di, dj) acc. min (px m (int i + di) (int j + dj)) acc) offs 255)
                [0..<length (m ! i)])
         [0..<length m]"

fun erode_iter :: "(int \<times> int) list \<Rightarrow> nat \<Rightarrow> mask \<Rightarrow> mask" where
  "erode_iter offs 0 m = m"
| "erode_iter offs (Suc n) m = erode_iter offs n (erode_pass offs m)"

definition erode :: "mask \<Rightarrow> mask \<Rightarrow> nat \<Rightarrow> mask" where
  "erode src kern iterations = erode_iter (kernel_offsets kern) iterations src"

text \<open>The slice \<open>a[1 : h + 1, 1 : w + 1]\<close>.\<close>

definition crop :: "nat \<Rightarrow> nat \<Rightarrow> mask \<Rightarrow> mask" where
  "crop h w a = map (\<lambda>r. take w (drop 1 r)) (take h (drop 1 a))"

text \<open>The elementwise difference of two uint8 arrays of one shape; it wraps around.\<close>

definition np_sub :: "mask \<Rightarrow> mask \<Rightarrow> mask" where
  "np_sub a b = map2 (\<lambda>r e. map2 (\<lambda>x y. x - y) r e) a b"

text \<open>Lines 21 to 25: the number of erosion passes.\<close>

definition dilation_of :: "nat \<Rightarrow> nat \<Rightarrow> real \<Rightarrow> int" where
  "dilation_of h w dilation_ratio =
     (let img_diag = sqrt (real (h ^ 2 + w ^ 2));
          dilation = py_round (dilation_ratio * img_diag)
      in if dilation < 1 then 1 else dilation)"

definition mask_to_boundary :: "mask \<Rightarrow> real \<Rightarrow> mask" where
  "mask_to_boundary msk dilation_ratio =
     (let h = length msk; w = width msk;
          dilation = dilation_of h w dilation_ratio;
          new_mask = copyMakeBorder msk 1 1 1 1 0;
          kern = np_ones 3 3;
          new_mask_erode = erode new_mask kern (nat dilation);
          mask_erode = crop h w new_mask_erode
      in np_sub msk mask_erode)"

section \<open>Augmenting annotations: the worker and the fan-out\<close>

text \<open>
  An annotation is a Python dict; its values are left abstract (type \<open>'v\<close>), the RLE
  dict that \<open>mask_utils.encode\<close> returns being one of them. Annotations are values here:
  a worker process receives a pickled copy of its shard, so the assignment
  \<open>ann['boundary'] = ...\<close> inside a worker changes the copy that is sent back, not the
  dict held by the caller.

  Exceptions are values: \<open>Raised msg\<close> stands for an exception raised inside an external
  capability (the mask provider, the RLE codec, the dataset constructor).
\<close>

datatype py_exception = ValueError | KeyError | FileNotFoundError | Raised string

type_synonym 'v annotation = "string \<rightharpoonup> 'v"

text \<open>What the functions print (the elapsed time of the last message left out).\<close>

datatype message =
    Found_existing_boundaries_skipping
  | Adding_boundary_to_annotation
  | Number_of_cores int nat
  | Boundary_added
  | Saved_as "string list"

text \<open>
  What can be observed of a call besides its result: the lines printed, and the
  annotations the mask provider was invoked on (by any worker, shard after shard).
\<close>

record 'v world =
  stdout :: "message list"
  provider_calls :: "'v annotation list"

text \<open>
  \<open>augment_annotations_with_boundary_single_core\<close>, lines 36 to 48. The loop carries
  \<open>new_annotations\<close>; the first exception ends it. The first component of the result
  lists the annotations \<open>ann_to_mask\<close> was called on. \<open>encode\<close> is the module-level
  \<open>mask_utils.encode\<close> (applied to the boundary as a one-channel Fortran-order array,
  first element of the returned list).
\<close>

fun single_core_loop ::
  "(mask \<Rightarrow> py_exception + 'v) \<Rightarrow> 'v annotation list \<Rightarrow> ('v annotation \<Rightarrow> py_exception + mask) \<Rightarrow>
   real \<Rightarrow> 'v annotation list \<Rightarrow> 'v annotation list \<times> (py_exception + 'v annotation list)" where
  "single_core_loop encode [] ann_to_mask dilation_ratio new_annotations =
     ([], Inr new_annotations)"
| "single_core_loop encode (ann # annotations) ann_to_mask dilation_ratio new_annotations =
     (case ann_to_mask ann of
        Inl e \<Rightarrow> ([ann], Inl e)
      | Inr msk \<Rightarrow>
          (let boundary = mask_to_boundary msk dilation_ratio in
           case encode boundary of
             Inl e \<Rightarrow> ([ann], Inl e)
           | Inr rle \<Rightarrow>
               (let (calls, res) =
                      single_core_loop encode annotations ann_to_mask dilation_ratio
                        (new_annotations @ [ann(''boundary'' \<mapsto> rle)])
                in (ann # calls, res))))"

definition augment_annotations_with_boundary_single_core ::
  "(mask \<Rightarrow> py_exception + 'v) \<Rightarrow> nat \<Rightarrow> 'v annotation list \<Rightarrow>
   ('v annotation \<Rightarrow> py_exception + mask) \<Rightarrow> real \<Rightarrow>
   'v annotation list \<times> (py_exception + 'v annotation list)" where
  "augment_annotations_with_boundary_single_core encode proc_id annotations ann_to_mask dilation_ratio =
     single_core_loop encode annotations ann_to_mask dilation_ratio []"

text \<open>
  \<open>np.array_split(ary, n)\<close> along the first axis: \<open>n\<close> sections, the first
  \<open>len(ary) % n\<close> of them one element longer; \<open>ValueError\<close> when \<open>n\<close> is not positive.
\<close>

fun cumsum :: "nat \<Rightarrow> nat list \<Rightarrow> nat list" where
  "cumsum acc [] = []"
| "cumsum acc (x # xs) = (acc + x) # cumsum (acc + x) xs"

definition array_split :: "'a list \<Rightarrow> int \<Rightarrow> py_exception + 'a list list" where
  "array_split ary indices_or_sections =
     (let Ntotal = length ary in
      if indices_or_sections \<le> 0 then Inl ValueError
      else
        let Nsections = nat indices_or_sections;
            Neach_section = Ntotal div Nsections;
            extras = Ntotal mod Nsections;
            section_sizes = [0] @ replicate extras (Neach_section + 1)
                                @ replicate (Nsections - extras) Neach_section;
            div_points = cumsum 0 section_sizes
        in Inr (map (\<lambda>i. drop (div_points ! i) (take (div_points ! (i + 1)) ary))
                  [0..<Nsections]))"

text \<open>
  The loop \<open>for p in processes: new_annotations.extend(p.get())\<close>: results are taken in
  the order the shards were submitted, and \<open>p.get()\<close> raises what the worker raised.
\<close>

fun gather :: "(py_exception + 'a list) list \<Rightarrow> 'a list \<Rightarrow> py_exception + 'a list" where
  "gather [] new_annotations = Inr new_annotations"
| "gather (p # processes) new_annotations =
     (case p of
        Inl e \<Rightarrow> Inl e
      | Inr res \<Rightarrow> gather processes (new_annotations @ res))"

text \<open>
  \<open>augment_annotations_with_boundary_multi_core\<close>, lines 51 to 70. \<open>cpu_count\<close> is the
  value of \<open>multiprocessing.cpu_count()\<close>. Every shard is submitted before the first
  result is awaited.
\<close>

definition augment_annotations_with_boundary_multi_core ::
  "(mask \<Rightarrow> py_exception + 'v) \<Rightarrow> nat \<Rightarrow> 'v annotation list \<Rightarrow>
   ('v annotation \<Rightarrow> py_exception + mask) \<Rightarrow> real \<Rightarrow> 'v world \<Rightarrow>
   (py_exception + 'v annotation list) \<times> 'v world" where
  "augment_annotations_with_boundary_multi_core encode cpu_count annotations ann_to_mask dilation_ratio w =
     (let cpu_num = int cpu_count in
      case array_split annotations cpu_num of
        Inl e \<Rightarrow> (Inl e, w)
      | Inr annotations_split \<Rightarrow>
          (let w1 = w\<lparr>stdout := stdout w @ [Number_of_cores cpu_num (length (annotations_split ! 0))]\<rparr>;
               processes = map (\<lambda>(proc_id, annotation_set).
                   augment_annotations_with_boundary_single_core encode proc_id annotation_set
                     ann_to_mask dilation_ratio)
                 (enumerate 0 annotations_split);
               w2 = w1\<lparr>provider_calls := provider_calls w1 @ concat (map fst processes)\<rparr>
           in (gather (map snd processes) [], w2)))"

section \<open>The dataset: \<open>add_boundary_multi_core\<close>\<close>

text \<open>
  The part of a COCO object the function touches: \<open>coco.dataset["annotations"]\<close>, the
  flag \<open>coco.get_boundary\<close> and the index that \<open>coco.createIndex()\<close> rebuilds. The class
  itself is not among the sources, so \<open>createIndex\<close> is a parameter (a function of the
  annotation list) and so is the mask provider \<open>coco.annToMask\<close>.
\<close>

record ('v, 'i) coco =
  dataset_annotations :: "'v annotation list"
  get_boundary :: bool
  index :: 'i

text \<open>
  \<open>add_boundary_multi_core\<close>, lines 73 to 103. The result is the exception that left
  the call (if any), the dataset after the call and what was observed.
\<close>

definition add_boundary_multi_core ::
  "(mask \<Rightarrow> py_exception + 'v) \<Rightarrow> nat \<Rightarrow> ('v annotation \<Rightarrow> py_exception + mask) \<Rightarrow>
   ('v annotation list \<Rightarrow> 'i) \<Rightarrow> ('v, 'i) coco \<Rightarrow> int \<Rightarrow> real \<Rightarrow> 'v world \<Rightarrow>
   py_exception option \<times> ('v, 'i) coco \<times> 'v world" where
  "add_boundary_multi_core encode cpu_count annToMask createIndex coco cpu_num dilation_ratio w =
     (if get_boundary coco = True
      then (None, coco, w\<lparr>stdout := stdout w @ [Found_existing_boundaries_skipping]\<rparr>)
      else
        let w1 = w\<lparr>stdout := stdout w @ [Adding_boundary_to_annotation]\<rparr>;
            cpu_num = min cpu_num (int cpu_count);
            annotations = dataset_annotations coco
        in case array_split annotations cpu_num of
             Inl e \<Rightarrow> (Some e, coco, w1)
           | Inr annotations_split \<Rightarrow>
               (let w2 = w1\<lparr>stdout := stdout w1 @
                           [Number_of_cores cpu_num (length (annotations_split ! 0))]\<rparr>;
                    processes = map (\<lambda>(proc_id, annotation_set).
                        augment_annotations_with_boundary_single_core encode proc_id annotation_set
                          annToMask dilation_ratio)
                      (enumerate 0 annotations_split);
                    w3 = w2\<lparr>provider_calls := provider_calls w2 @ concat (map fst processes)\<rparr>
                in case gather (map snd processes) [] of
                     Inl e \<Rightarrow> (Some e, coco, w3)
                   | Inr new_annotations \<Rightarrow>
                       (None,
                        coco\<lparr>dataset_annotations := new_annotations,
                             index := createIndex new_annotations,
                             get_boundary := True\<rparr>,
                        w3\<lparr>stdout := stdout w3 @ [Boundary_added]\<rparr>)))"

section \<open>Saving the augmented annotation file\<close>

text \<open>
  A path is the list of the components of an absolute, resolved path (what
  \<open>Path(annotation_file).expanduser().resolve()\<close> returns); the last component is the
  file's name. The accessors follow pathlib: the suffix starts at the last dot of the
  name, unless that dot is the first or the last character.
\<close>

type_synonym path = "string list"

definition path_name :: "path \<Rightarrow> string" where
  "path_name p = (if p = [] then [] else last p)"

definition path_parent :: "path \<Rightarrow> path" where
  "path_parent p = butlast p"

text \<open>\<open>str.rfind\<close> for one character: the highest index where it occurs, or -1.\<close>

definition rfind :: "string \<Rightarrow> char \<Rightarrow> int" where
  "rfind s c =
     (case filter (\<lambda>i. s ! i = c) (rev [0..<length s]) of
        [] \<Rightarrow> - 1
      | i # _ \<Rightarrow> int i)"

definition path_suffix :: "path \<Rightarrow> string" where
  "path_suffix p =
     (let name = path_name p; i = rfind name (CHR ''.'')
      in if 0 < i \<and> i < int (length name) - 1 then drop (nat i) name else [])"

definition path_stem :: "path \<Rightarrow> string" where
  "path_stem p =
     (let name = path_name p; i = rfind name (CHR ''.'')
      in if 0 < i \<and> i < int (length name) - 1 then take (nat i) name else name)"

text \<open>
  The operator \<open>/\<close> of pathlib: the right operand is cut at the separators, empty
  components and \<open>.\<close> are dropped, and an operand that starts with the separator
  replaces the left one.
\<close>

fun split_sep :: "string \<Rightarrow> string list" where
  "split_sep [] = [[]]"
| "split_sep (c # cs) =
     (if c = CHR ''/'' then [] # split_sep cs
      else (case split_sep cs of
              [] \<Rightarrow> [[c]]
            | part # parts \<Rightarrow> (c # part) # parts))"

definition parse_parts :: "string \<Rightarrow> path" where
  "parse_parts s = filter (\<lambda>part. part \<noteq> [] \<and> part \<noteq> ''.'') (split_sep s)"

definition truediv :: "path \<Rightarrow> string \<Rightarrow> path" where
  "truediv p s =
     (case s of
        [] \<Rightarrow> p
      | c # _ \<Rightarrow> if c = CHR ''/'' then parse_parts s else p @ parse_parts s)"

text \<open>Line 123: where the result is written.\<close>

definition new_annotation_file :: "path \<Rightarrow> string \<Rightarrow> path" where
  "new_annotation_file annotation_file stem_addon =
     truediv (path_parent annotation_file)
       (path_stem annotation_file @ stem_addon @ path_suffix annotation_file)"

text \<open>
  The JSON document of an annotation file: its \<open>annotations\<close> array and everything
  else. The file system maps a path to the document stored there.
\<close>

record ('v, 'r) coco_json =
  json_annotations :: "'v annotation list"
  json_rest :: 'r

text \<open>
  The loop of lines 119 and 120: \<open>decode\<close> turns the byte string under \<open>counts\<close> of a
  boundary into text; an annotation without \<open>boundary\<close> raises \<open>KeyError\<close>.
\<close>

fun decode_counts ::
  "('v \<Rightarrow> py_exception + 'v) \<Rightarrow> 'v annotation list \<Rightarrow> py_exception + 'v annotation list" where
  "decode_counts decode [] = Inr []"
| "decode_counts decode (a # anns_b) =
     (case a ''boundary'' of
        None \<Rightarrow> Inl KeyError
      | Some b \<Rightarrow>
          (case decode b of
             Inl e \<Rightarrow> Inl e
           | Inr b' \<Rightarrow>
               (case decode_counts decode anns_b of
                  Inl e \<Rightarrow> Inl e
                | Inr rest \<Rightarrow> Inr (a(''boundary'' \<mapsto> b') # rest))))"

text \<open>
  \<open>coco_add_boundaries_and_save_as_annotation_file\<close>, lines 106 to 127. The class
  \<open>COCO\<close> is not among the sources: its constructor (from the loaded document), its
  mask provider, its index and the values of \<open>coco.anns\<close> are parameters. The call
  \<open>add_boundary_multi_core(coco)\<close> runs with the defaults \<open>cpu_num = 16\<close> and
  \<open>dilation_ratio = 0.02\<close>.
\<close>

definition coco_add_boundaries_and_save_as_annotation_file ::
  "(mask \<Rightarrow> py_exception + 'v) \<Rightarrow> nat \<Rightarrow> (('v, 'r) coco_json \<Rightarrow> py_exception + ('v, 'i) coco) \<Rightarrow>
   ('v annotation \<Rightarrow> py_exception + mask) \<Rightarrow> ('v annotation list \<Rightarrow> 'i) \<Rightarrow>
   ('i \<Rightarrow> 'v annotation list) \<Rightarrow> ('v \<Rightarrow> py_exception + 'v) \<Rightarrow>
   path \<Rightarrow> string \<Rightarrow> (path \<rightharpoonup> ('v, 'r) coco_json) \<Rightarrow> 'v world \<Rightarrow>
   py_exception option \<times> (path \<rightharpoonup> ('v, 'r) coco_json) \<times> 'v world" where
  "coco_add_boundaries_and_save_as_annotation_file encode cpu_count COCO annToMask createIndex
       anns_values decode annotation_file stem_addon fs w =
     (case fs annotation_file of
        None \<Rightarrow> (Some FileNotFoundError, fs, w)
      | Some coco_json \<Rightarrow>
          (case COCO coco_json of
             Inl e \<Rightarrow> (Some e, fs, w)
           | Inr coco \<Rightarrow>
               (case add_boundary_multi_core encode cpu_count annToMask createIndex coco 16 (2 / 100) w of
                  (Some e, coco', w') \<Rightarrow> (Some e, fs, w')
                | (None, coco', w') \<Rightarrow>
                    (case decode_counts decode (anns_values (index coco')) of
                       Inl e \<Rightarrow> (Some e, fs, w')
                     | Inr anns_b \<Rightarrow>
                         (let target = new_annotation_file annotation_file stem_addon
                          in (None,
                              fs(target \<mapsto> coco_json\<lparr>json_annotations := anns_b\<rparr>),
                              w'\<lparr>stdout := stdout w' @ [Saved_as target]\<rparr>))))))"

section \<open>Notions used to state the properties\<close>

text \<open>
  The boundary data of one annotation: its mask, the boundary of the mask, encoded; or the
  exception raised on the way.
\<close>

definition boundary_of ::
  "(mask \<Rightarrow> py_exception + 'v) \<Rightarrow> ('v annotation \<Rightarrow> py_exception + mask) \<Rightarrow> real \<Rightarrow>
   'v annotation \<Rightarrow> py_exception + 'v" where
  "boundary_of encode ann_to_mask dilation_ratio ann =
     (case ann_to_mask ann of
        Inl e \<Rightarrow> Inl e
      | Inr msk \<Rightarrow> encode (mask_to_boundary msk dilation_ratio))"

text \<open>An annotation with its boundary data attached, all other fields as they were.\<close>

definition attach_boundary ::
  "(mask \<Rightarrow> py_exception + 'v) \<Rightarrow> ('v annotation \<Rightarrow> py_exception + mask) \<Rightarrow> real \<Rightarrow>
   'v annotation \<Rightarrow> 'v annotation" where
  "attach_boundary encode ann_to_mask dilation_ratio ann =
     ann(''boundary'' \<mapsto> projr (boundary_of encode ann_to_mask dilation_ratio ann))"

text \<open>
  Processing a sequence in order: the exception of the first annotation that fails, or
  every annotation with its boundary attached, in the order of the input.
\<close>

definition in_order ::
  "(mask \<Rightarrow> py_exception + 'v) \<Rightarrow> ('v annotation \<Rightarrow> py_exception + mask) \<Rightarrow> real \<Rightarrow>
   'v annotation list \<Rightarrow> py_exception + 'v annotation list" where
  "in_order encode ann_to_mask dilation_ratio annotations =
     (case find (\<lambda>a. isl (boundary_of encode ann_to_mask dilation_ratio a)) annotations of
        Some a \<Rightarrow> Inl (projl (boundary_of encode ann_to_mask dilation_ratio a))
      | None \<Rightarrow> Inr (map (attach_boundary encode ann_to_mask dilation_ratio) annotations))"

text \<open>
  The division points of \<open>array_split\<close> in closed form: shard \<open>i\<close> of \<open>k\<close> shards
  over \<open>N\<close> elements is the slice from \<open>div_point N k i\<close> to \<open>div_point N k (i + 1)\<close>.
\<close>

definition div_point :: "nat \<Rightarrow> nat \<Rightarrow> nat \<Rightarrow> nat" where
  "div_point N k i = i * (N div k) + min i (N mod k)"




section \<open>Properties of the boundary extraction\<close>

subsection \<open>One erosion pass never raises a pixel\<close>

lemma fold_min_le_init:
  fixes a :: "'a::linorder"
  shows "fold (\<lambda>p acc. min (F p) acc) ps a \<le> a"
proof (induction ps arbitrary: a)
  case Nil
  show ?case by simp
next
  case (Cons p ps)
  have "fold (\<lambda>p acc. min (F p) acc) ps (min (F p) a) \<le> min (F p) a"
    by (rule Cons.IH)
  then show ?case by simp
qed

lemma fold_min_le_elem:
  fixes a :: "'a::linorder"
  assumes "q \<in> set ps"
  shows "fold (\<lambda>p acc. min (F p) acc) ps a \<le> F q"
  using assms
proof (induction ps arbitrary: a)
  case Nil
  then show ?case by simp
next
  case (Cons p ps)
  show ?case
  proof (cases "q = p")
    case True
    have "fold (\<lambda>p acc. min (F p) acc) ps (min (F p) a) \<le> min (F p) a"
      by (rule fold_min_le_init)
    with True show ?thesis by simp
  next
    case False
    with Cons.prems have "q \<in> set ps" by simp
    then show ?thesis using Cons.IH by simp
  qed
qed

lemma length_erode_pass: "length (erode_pass offs m) = length m"
  by (simp add: erode_pass_def)

lemma length_erode_pass_row:
  "i < length m \<Longrightarrow> length (erode_pass offs m ! i) = length (m ! i)"
  by (simp add: erode_pass_def)

lemma erode_pass_nth:
  assumes "i < length m" and "j < length (m ! i)"
  shows "erode_pass offs m ! i ! j =
         fold (\<lambda>p acc. min (px m (int i + fst p) (int j + snd p)) acc) offs 255"
  using assms by (simp add: erode_pass_def case_prod_unfold)




lemma is_mask_row: "is_mask h w m \<Longrightarrow> i < h \<Longrightarrow> length (m ! i) = w"
  by (simp add: is_mask_def list_all_length)

lemma is_mask_length: "is_mask h w m \<Longrightarrow> length m = h"
  by (simp add: is_mask_def)

lemma is_maskI:
  "length m = h \<Longrightarrow> (\<And>i. i < h \<Longrightarrow> length (m ! i) = w) \<Longrightarrow> is_mask h w m"
  by (simp add: is_mask_def list_all_length)

lemma is_mask_width: "is_mask h w m \<Longrightarrow> 0 < h \<Longrightarrow> width m = w"
  by (cases m) (auto simp: is_mask_def width_def)



lemma is_mask_erode_pass: "is_mask h w m \<Longrightarrow> is_mask h w (erode_pass offs m)"
  by (rule is_maskI) (simp_all add: length_erode_pass length_erode_pass_row is_mask_length is_mask_row)


lemma is_mask_erode_iter: "is_mask h w m \<Longrightarrow> is_mask h w (erode_iter offs n m)"
  by (induction n arbitrary: m) (simp_all add: is_mask_erode_pass)



lemma kernel_offsets_ones:
  "kernel_offsets (np_ones 3 3) =
     [(-1, -1), (-1, 0), (-1, 1), (0, -1), (0, 0), (0, 1), (1, -1), (1, 0), (1, 1)]"
  by code_simp

lemma is_mask_pad:
  assumes "is_mask h w m" and "0 < h"
  shows "is_mask (h + 2) (w + 2) (copyMakeBorder m 1 1 1 1 0)"
  using assms is_mask_width [OF assms]
  by (auto simp: is_mask_def copyMakeBorder_def Let_def list_all_iff)



lemma is_mask_crop:
  assumes "is_mask (h + 2) (w + 2) a"
  shows "is_mask h w (crop h w a)"
  using assms by (auto simp: is_mask_def crop_def list_all_iff dest!: in_set_takeD in_set_dropD)

lemma crop_nth:
  assumes "is_mask (h + 2) (w + 2) a" and "i < h" and "j < w"
  shows "crop h w a ! i ! j = a ! Suc i ! Suc j"
  using assms by (simp add: crop_def is_mask_def list_all_length)

lemma is_mask_np_sub:
  assumes "is_mask h w a" and "is_mask h w b"
  shows "is_mask h w (np_sub a b)"
  using assms by (intro is_maskI) (simp_all add: np_sub_def is_mask_def list_all_length)

lemma np_sub_nth:
  assumes "is_mask h w a" and "is_mask h w b" and "i < h" and "j < w"
  shows "np_sub a b ! i ! j = a ! i ! j - b ! i ! j"
  using assms by (simp add: np_sub_def is_mask_def list_all_length)


lemma zero_zero_in_offsets: "(0, 0) \<in> set (kernel_offsets (np_ones 3 3))"
  by (simp add: kernel_offsets_ones)

lemma mask_to_boundary_empty: "mask_to_boundary [] r = []"
  by (simp add: mask_to_boundary_def np_sub_def Let_def)

lemma mask_to_boundary_unfold:
  "mask_to_boundary m r =
     np_sub m (crop (length m) (width m)
       (erode (copyMakeBorder m 1 1 1 1 0) (np_ones 3 3) (nat (dilation_of (length m) (width m) r))))"
  by (simp add: mask_to_boundary_def Let_def)

lemma is_mask_eroded:
  assumes "is_mask h w m" and "0 < h"
  shows "is_mask (h + 2) (w + 2) (erode (copyMakeBorder m 1 1 1 1 0) (np_ones 3 3) n)"
  unfolding erode_def by (intro is_mask_erode_iter is_mask_pad assms)




lemma mask_to_boundary_nth:
  assumes "is_mask h w m" and "i < h" and "j < w"
  shows "mask_to_boundary m r ! i ! j =
         m ! i ! j - erode (copyMakeBorder m 1 1 1 1 0) (np_ones 3 3) (nat (dilation_of h w r)) ! Suc i ! Suc j"
proof -
  from assms have h: "0 < h" by simp
  have len: "length m = h" and wid: "width m = w"
    using assms(1) h by (simp_all add: is_mask_length is_mask_width)
  let ?E = "erode (copyMakeBorder m 1 1 1 1 0) (np_ones 3 3) (nat (dilation_of h w r))"
  have E: "is_mask (h + 2) (w + 2) ?E"
    using assms(1) h by (rule is_mask_eroded)
  have "mask_to_boundary m r ! i ! j = m ! i ! j - crop h w ?E ! i ! j"
    unfolding mask_to_boundary_unfold len wid
    using assms(1) is_mask_crop [OF E] assms(2,3) by (rule np_sub_nth)
  then show ?thesis
    by (simp only: crop_nth [OF E assms(2,3)])
qed

lemma is_mask_mask_to_boundary:
  assumes "is_mask h w m"
  shows "is_mask h w (mask_to_boundary m r)"
proof (cases "h = 0")
  case True
  with assms have "m = []" by (simp add: is_mask_def)
  with True show ?thesis by (simp add: mask_to_boundary_empty is_mask_def)
next
  case False
  then have h: "0 < h" by simp
  have len: "length m = h" and wid: "width m = w"
    using assms h by (simp_all add: is_mask_length is_mask_width)
  show ?thesis
    unfolding mask_to_boundary_unfold len wid
    by (intro is_mask_np_sub assms is_mask_crop is_mask_eroded h)
qed



subsection \<open>The number of erosion passes\<close>


lemma py_round_small: assumes "0 \<le> x" and "x < 1 / 2" shows "py_round x = 0"
proof -
  from assms have "\<lfloor>x\<rfloor> = 0" by linarith
  with assms show ?thesis by (simp add: py_round_def)
qed




subsection \<open>The all-foreground mask: one erosion pass leaves the perimeter\<close>

lemma fold_min_ge:
  fixes a :: "'a::linorder"
  assumes "\<And>q. q \<in> set ps \<Longrightarrow> c \<le> F q" and "c \<le> a"
  shows "c \<le> fold (\<lambda>p acc. min (F p) acc) ps a"
  using assms
  by (induction ps arbitrary: a) auto

lemma pad_full:
  assumes "0 < h"
  shows "copyMakeBorder (replicate h (replicate w 1)) 1 1 1 1 0 =
         replicate (w + 2) 0 # replicate h (0 # replicate w 1 @ [0]) @ [replicate (w + 2) 0]"
  using assms by (cases h) (simp_all add: copyMakeBorder_def Let_def width_def)

lemma px_pad_full_nat:
  assumes "0 < h" and "a \<le> h + 1" and "b \<le> w + 1"
  shows "px (copyMakeBorder (replicate h (replicate w 1)) 1 1 1 1 0) (int a) (int b) =
         (if 1 \<le> a \<and> a \<le> h \<and> 1 \<le> b \<and> b \<le> w then 1 else 0)"
  unfolding pad_full [OF assms(1)]
  using assms(2,3)
  by (auto simp: px_def nth_Cons' nth_append)

lemma px_pad_full:
  assumes "0 < h" and "0 \<le> a" and "a \<le> int h + 1" and "0 \<le> b" and "b \<le> int w + 1"
  shows "px (copyMakeBorder (replicate h (replicate w 1)) 1 1 1 1 0) a b =
         (if 1 \<le> a \<and> a \<le> int h \<and> 1 \<le> b \<and> b \<le> int w then 1 else 0)"
proof -
  from assms obtain a' b' where a: "a = int a'" and b: "b = int b'"
    using zero_le_imp_eq_int by blast
  from assms have "a' \<le> h + 1" and "b' \<le> w + 1" by (simp_all add: a b)
  from px_pad_full_nat [OF assms(1) this] show ?thesis
    by (simp add: a b)
qed


lemma is_mask_full: "is_mask h w (replicate h (replicate w 1))"
  by (simp add: is_mask_def list_all_iff)

lemma eroded_full_interior:
  assumes "0 < i" and "Suc i < h" and "0 < j" and "Suc j < w"
  shows "erode_pass (kernel_offsets (np_ones 3 3))
           (copyMakeBorder (replicate h (replicate w 1)) 1 1 1 1 0) ! Suc i ! Suc j = 1"
proof -
  let ?P = "copyMakeBorder (replicate h (replicate w 1)) 1 1 1 1 0"
  let ?F = "\<lambda>p. px ?P (int (Suc i) + fst p) (int (Suc j) + snd p)"
  from assms have h: "0 < h" by simp
  have P: "is_mask (h + 2) (w + 2) ?P"
    using is_mask_full h by (rule is_mask_pad)
  have i': "Suc i < length ?P" and j': "Suc j < length (?P ! Suc i)"
    using P assms by (simp_all add: is_mask_length is_mask_row)
  have eq: "erode_pass (kernel_offsets (np_ones 3 3)) ?P ! Suc i ! Suc j =
            fold (\<lambda>p acc. min (?F p) acc) (kernel_offsets (np_ones 3 3)) 255"
    using i' j' by (rule erode_pass_nth)
  have "1 \<le> ?F q" if "q \<in> set (kernel_offsets (np_ones 3 3))" for q
  proof -
    from that have "- 1 \<le> fst q \<and> fst q \<le> 1 \<and> - 1 \<le> snd q \<and> snd q \<le> 1"
      by (auto simp: kernel_offsets_ones)
    with assms have "?F q = 1"
      by (subst px_pad_full [OF h]) auto
    then show ?thesis by simp
  qed
  moreover have "(1::u8) \<le> 255" by simp
  ultimately have "1 \<le> fold (\<lambda>p acc. min (?F p) acc) (kernel_offsets (np_ones 3 3)) 255"
    by (rule fold_min_ge)
  moreover have "fold (\<lambda>p acc. min (?F p) acc) (kernel_offsets (np_ones 3 3)) 255 \<le> ?F (0, 0)"
    using zero_zero_in_offsets by (rule fold_min_le_elem)
  moreover have "?F (0, 0) = 1"
    using assms by (subst px_pad_full [OF h]) auto
  ultimately show ?thesis
    unfolding eq by simp
qed

lemma eroded_full_edge:
  assumes "i < h" and "j < w" and "\<not> (0 < i \<and> Suc i < h \<and> 0 < j \<and> Suc j < w)"
  shows "erode_pass (kernel_offsets (np_ones 3 3))
           (copyMakeBorder (replicate h (replicate w 1)) 1 1 1 1 0) ! Suc i ! Suc j = 0"
proof -
  let ?P = "copyMakeBorder (replicate h (replicate w 1)) 1 1 1 1 0"
  let ?F = "\<lambda>p. px ?P (int (Suc i) + fst p) (int (Suc j) + snd p)"
  from assms have h: "0 < h" by simp
  have P: "is_mask (h + 2) (w + 2) ?P"
    using is_mask_full h by (rule is_mask_pad)
  have i': "Suc i < length ?P" and j': "Suc j < length (?P ! Suc i)"
    using P assms by (simp_all add: is_mask_length is_mask_row)
  have eq: "erode_pass (kernel_offsets (np_ones 3 3)) ?P ! Suc i ! Suc j =
            fold (\<lambda>p acc. min (?F p) acc) (kernel_offsets (np_ones 3 3)) 255"
    using i' j' by (rule erode_pass_nth)
  from assms(3) consider "i = 0" | "Suc i = h" | "j = 0" | "Suc j = w"
    using assms(1,2) by linarith
  then obtain q where q: "q \<in> set (kernel_offsets (np_ones 3 3))" and z: "?F q = 0"
  proof cases
    case 1
    have "(- 1, 0) \<in> set (kernel_offsets (np_ones 3 3))" by (simp add: kernel_offsets_ones)
    moreover have "?F (- 1, 0) = 0"
      using 1 assms by (subst px_pad_full [OF h]) auto
    ultimately show ?thesis by (rule that)
  next
    case 2
    have "(1, 0) \<in> set (kernel_offsets (np_ones 3 3))" by (simp add: kernel_offsets_ones)
    moreover have "?F (1, 0) = 0"
      using 2 assms by (subst px_pad_full [OF h]) auto
    ultimately show ?thesis by (rule that)
  next
    case 3
    have "(0, - 1) \<in> set (kernel_offsets (np_ones 3 3))" by (simp add: kernel_offsets_ones)
    moreover have "?F (0, - 1) = 0"
      using 3 assms by (subst px_pad_full [OF h]) auto
    ultimately show ?thesis by (rule that)
  next
    case 4
    have "(0, 1) \<in> set (kernel_offsets (np_ones 3 3))" by (simp add: kernel_offsets_ones)
    moreover have "?F (0, 1) = 0"
      using 4 assms by (subst px_pad_full [OF h]) auto
    ultimately show ?thesis by (rule that)
  qed
  have "fold (\<lambda>p acc. min (?F p) acc) (kernel_offsets (np_ones 3 3)) 255 \<le> ?F q"
    using q by (rule fold_min_le_elem)
  then show ?thesis
    unfolding eq z by simp
qed


lemma erode_once: "erode src kern (nat 1) = erode_pass (kernel_offsets kern) src"
  by (simp add: erode_def)

lemma mask_to_boundary_full:
  assumes "dilation_of h w r = 1"
  shows "mask_to_boundary (replicate h (replicate w 1)) r =
         map (\<lambda>i. map (\<lambda>j. if 0 < i \<and> Suc i < h \<and> 0 < j \<and> Suc j < w then 0 else 1) [0..<w])
           [0..<h]"
proof -
  let ?m = "replicate h (replicate w 1) :: mask"
  let ?B = "mask_to_boundary ?m r"
  have shape: "is_mask h w ?B"
    using is_mask_full by (rule is_mask_mask_to_boundary)
  have px: "?B ! i ! j = (if 0 < i \<and> Suc i < h \<and> 0 < j \<and> Suc j < w then 0 else 1)"
    if ij: "i < h" "j < w" for i j
  proof -
    have "?B ! i ! j = ?m ! i ! j -
          erode (copyMakeBorder ?m 1 1 1 1 0) (np_ones 3 3) (nat (dilation_of h w r)) ! Suc i ! Suc j"
      using is_mask_full ij by (rule mask_to_boundary_nth)
    also have "\<dots> = 1 - erode_pass (kernel_offsets (np_ones 3 3)) (copyMakeBorder ?m 1 1 1 1 0) ! Suc i ! Suc j"
      unfolding assms erode_once using ij by simp
    finally have eq: "?B ! i ! j =
        1 - erode_pass (kernel_offsets (np_ones 3 3)) (copyMakeBorder ?m 1 1 1 1 0) ! Suc i ! Suc j" .
    show ?thesis
    proof (cases "0 < i \<and> Suc i < h \<and> 0 < j \<and> Suc j < w")
      case True
      then have "erode_pass (kernel_offsets (np_ones 3 3)) (copyMakeBorder ?m 1 1 1 1 0) ! Suc i ! Suc j = 1"
        by (intro eroded_full_interior) simp_all
      with eq True show ?thesis by simp
    next
      case False
      with ij have "erode_pass (kernel_offsets (np_ones 3 3)) (copyMakeBorder ?m 1 1 1 1 0) ! Suc i ! Suc j = 0"
        by (intro eroded_full_edge)
      with eq False show ?thesis by simp
    qed
  qed
  show ?thesis
  proof (rule nth_equalityI)
    show "length ?B = length (map (\<lambda>i. map (\<lambda>j. if 0 < i \<and> Suc i < h \<and> 0 < j \<and> Suc j < w then 0 else (1::u8)) [0..<w]) [0..<h])"
      using shape by (simp add: is_mask_length)
  next
    fix i assume "i < length ?B"
    with shape have i: "i < h" by (simp add: is_mask_length)
    show "?B ! i = map (\<lambda>i. map (\<lambda>j. if 0 < i \<and> Suc i < h \<and> 0 < j \<and> Suc j < w then 0 else 1) [0..<w]) [0..<h] ! i"
    proof (rule nth_equalityI)
      show "length (?B ! i) = length (map (\<lambda>i. map (\<lambda>j. if 0 < i \<and> Suc i < h \<and> 0 < j \<and> Suc j < w then 0 else (1::u8)) [0..<w]) [0..<h] ! i)"
        using shape i by (simp add: is_mask_row)
    next
      fix j assume "j < length (?B ! i)"
      with shape i have j: "j < w" by (simp add: is_mask_row)
      show "?B ! i ! j = map (\<lambda>i. map (\<lambda>j. if 0 < i \<and> Suc i < h \<and> 0 < j \<and> Suc j < w then 0 else 1) [0..<w]) [0..<h] ! i ! j"
        using i j by (simp add: px)
    qed
  qed
qed

lemma ring_10:
  "map (\<lambda>i. map (\<lambda>j. if 0 < i \<and> Suc i < 10 \<and> 0 < j \<and> Suc j < 10 then 0 else 1) [0..<10]) [0..<10] =
   ([[1, 1, 1, 1, 1, 1, 1, 1, 1, 1],
     [1, 0, 0, 0, 0, 0, 0, 0, 0, 1],
     [1, 0, 0, 0, 0, 0, 0, 0, 0, 1],
     [1, 0, 0, 0, 0, 0, 0, 0, 0, 1],
     [1, 0, 0, 0, 0, 0, 0, 0, 0, 1],
     [1, 0, 0, 0, 0, 0, 0, 0, 0, 1],
     [1, 0, 0, 0, 0, 0, 0, 0, 0, 1],
     [1, 0, 0, 0, 0, 0, 0, 0, 0, 1],
     [1, 0, 0, 0, 0, 0, 0, 0, 0, 1],
     [1, 1, 1, 1, 1, 1, 1, 1, 1, 1]] :: mask)"
  by code_simp

lemma sqrt_200: "sqrt 200 < 15"
  by (rule real_less_lsqrt) simp_all

lemma dilation_10_10: "dilation_of 10 10 (2 / 100) = 1"
proof -
  have "0 \<le> 2 / 100 * sqrt 200" by simp
  moreover have "2 / 100 * sqrt 200 < 1 / 2" using sqrt_200 by simp
  ultimately have "py_round (2 / 100 * sqrt 200) = 0" by (rule py_round_small)
  then show ?thesis by (simp add: dilation_of_def)
qed

text \<open>
  Claim C8. For the 10x10 all-foreground mask and \<open>dilation_ratio = 0.02\<close> the computed
  dilation is 1 (the rounded product \<open>0.02 * sqrt 200\<close> is 0, clamped to 1), and
  \<open>mask_to_boundary\<close> returns the perimeter ring of width one: the outer ring is 1 and
  the inner 8x8 block is 0.
\<close>

theorem perimeter_ring_10x10:
  "dilation_of 10 10 (2 / 100) = 1 \<and>
   mask_to_boundary (replicate 10 (replicate 10 1)) (2 / 100) =
     [[1, 1, 1, 1, 1, 1, 1, 1, 1, 1],
      [1, 0, 0, 0, 0, 0, 0, 0, 0, 1],
      [1, 0, 0, 0, 0, 0, 0, 0, 0, 1],
      [1, 0, 0, 0, 0, 0, 0, 0, 0, 1],
      [1, 0, 0, 0, 0, 0, 0, 0, 0, 1],
      [1, 0, 0, 0, 0, 0, 0, 0, 0, 1],
      [1, 0, 0, 0, 0, 0, 0, 0, 0, 1],
      [1, 0, 0, 0, 0, 0, 0, 0, 0, 1],
      [1, 0, 0, 0, 0, 0, 0, 0, 0, 1],
      [1, 1, 1, 1, 1, 1, 1, 1, 1, 1]]"
  using dilation_10_10 mask_to_boundary_full [OF dilation_10_10]
  by (simp only: ring_10 simp_thms)

section \<open>Properties of the fan-out\<close>

subsection \<open>A worker processes its shard in order\<close>

lemma single_core_loop_snd:
  "snd (single_core_loop encode xs f r acc) =
     (case in_order encode f r xs of Inl e \<Rightarrow> Inl e | Inr ys \<Rightarrow> Inr (acc @ ys))"
proof (induction xs arbitrary: acc)
  case Nil
  show ?case by (simp add: in_order_def)
next
  case (Cons a xs)
  show ?case
  proof (cases "f a")
    case (Inl e)
    then show ?thesis by (simp add: in_order_def boundary_of_def)
  next
    case (Inr m)
    show ?thesis
    proof (cases "encode (mask_to_boundary m r)")
      case (Inl e)
      with Inr show ?thesis by (simp add: in_order_def boundary_of_def)
    next
      case enc: (Inr rle)
      have b: "boundary_of encode f r a = Inr rle"
        using Inr enc by (simp add: boundary_of_def)
      have "snd (single_core_loop encode (a # xs) f r acc) =
            snd (single_core_loop encode xs f r (acc @ [a(''boundary'' \<mapsto> rle)]))"
        using Inr enc by (simp add: case_prod_unfold Let_def)
      also have "\<dots> = (case in_order encode f r xs of Inl e \<Rightarrow> Inl e
                        | Inr ys \<Rightarrow> Inr ((acc @ [a(''boundary'' \<mapsto> rle)]) @ ys))"
        by (rule Cons.IH)
      also have "\<dots> = (case in_order encode f r (a # xs) of Inl e \<Rightarrow> Inl e | Inr ys \<Rightarrow> Inr (acc @ ys))"
        using b by (simp add: in_order_def attach_boundary_def split: option.splits)
      finally show ?thesis .
    qed
  qed
qed

lemma single_core_snd:
  "snd (augment_annotations_with_boundary_single_core encode proc_id xs f r) = in_order encode f r xs"
  by (simp add: augment_annotations_with_boundary_single_core_def single_core_loop_snd split: sum.splits)

lemma find_app:
  "find P (xs @ ys) = (case find P xs of None \<Rightarrow> find P ys | Some x \<Rightarrow> Some x)"
  by (induction xs) simp_all

lemma in_order_append:
  "in_order encode f r (xs @ ys) =
     (case in_order encode f r xs of
        Inl e \<Rightarrow> Inl e
      | Inr xs' \<Rightarrow> (case in_order encode f r ys of Inl e \<Rightarrow> Inl e | Inr ys' \<Rightarrow> Inr (xs' @ ys')))"
  by (simp add: in_order_def find_app split: option.splits)

lemma gather_acc:
  "gather ps acc = (case gather ps [] of Inl e \<Rightarrow> Inl e | Inr ys \<Rightarrow> Inr (acc @ ys))"
proof (induction ps arbitrary: acc)
  case Nil
  show ?case by simp
next
  case (Cons p ps)
  show ?case
  proof (cases p)
    case (Inl e)
    then show ?thesis by simp
  next
    case (Inr res)
    have "gather (p # ps) acc = gather ps (acc @ res)" using Inr by simp
    also have "\<dots> = (case gather ps [] of Inl e \<Rightarrow> Inl e | Inr ys \<Rightarrow> Inr ((acc @ res) @ ys))"
      by (rule Cons.IH)
    also have "\<dots> = (case gather (p # ps) [] of Inl e \<Rightarrow> Inl e | Inr ys \<Rightarrow> Inr (acc @ ys))"
      using Inr Cons.IH [of res] by (simp split: sum.splits)
    finally show ?thesis .
  qed
qed

lemma gather_in_order:
  "gather (map (in_order encode f r) shards) [] = in_order encode f r (concat shards)"
proof (induction shards)
  case Nil
  show ?case by (simp add: in_order_def)
next
  case (Cons s shards)
  show ?case
  proof (cases "in_order encode f r s")
    case (Inl e)
    then show ?thesis by (simp add: in_order_append)
  next
    case (Inr ys)
    have "gather (map (in_order encode f r) (s # shards)) [] =
          gather (map (in_order encode f r) shards) ys"
      using Inr by simp
    also have "\<dots> = (case in_order encode f r (concat shards) of Inl e \<Rightarrow> Inl e | Inr zs \<Rightarrow> Inr (ys @ zs))"
      by (subst gather_acc) (simp add: Cons.IH)
    also have "\<dots> = in_order encode f r (concat (s # shards))"
      using Inr by (simp add: in_order_append)
    finally show ?thesis .
  qed
qed

lemma processes_snd:
  "map snd (map (\<lambda>(proc_id, annotation_set).
       augment_annotations_with_boundary_single_core encode proc_id annotation_set f r)
     (enumerate n shards)) = map (in_order encode f r) shards"
  by (induction shards arbitrary: n) (simp_all add: single_core_snd)

subsection \<open>The shards of \<open>array_split\<close>\<close>

lemma length_cumsum: "length (cumsum a xs) = length xs"
  by (induction xs arbitrary: a) simp_all

lemma cumsum_nth:
  "i < length xs \<Longrightarrow> cumsum a xs ! i = a + sum_list (take (Suc i) xs)"
proof (induction xs arbitrary: a i)
  case Nil
  then show ?case by simp
next
  case (Cons x xs)
  show ?case
  proof (cases i)
    case 0
    then show ?thesis by simp
  next
    case (Suc k)
    with Cons.prems have "k < length xs" by simp
    then have "cumsum (a + x) xs ! k = (a + x) + sum_list (take (Suc k) xs)"
      by (rule Cons.IH)
    with Suc show ?thesis by simp
  qed
qed

text \<open>The division points of \<open>array_split\<close>: prefix sums of the section sizes.\<close>

lemma div_points_nth:
  assumes "i \<le> length S"
  shows "cumsum 0 ([0] @ S) ! i = sum_list (take i S)"
  using assms by (cases i) (simp_all add: cumsum_nth)

lemma sum_take_sizes:
  "sum_list (take i (replicate a (Suc q) @ replicate b q)) = i * q + min i a"
  if "i \<le> a + b"
proof (cases "i \<le> a")
  case True
  then show ?thesis by (simp add: sum_list_replicate min_def)
next
  case False
  with that obtain c where c: "i = a + c" and cb: "c \<le> b"
    by (metis add_le_cancel_left le_Suc_ex nat_le_linear)
  show ?thesis
    unfolding c using cb by (simp add: sum_list_replicate min_def algebra_simps)
qed

lemma concat_slices:
  assumes "\<And>i. i < k \<Longrightarrow> d i \<le> d (Suc i)" and "d 0 = 0"
  shows "concat (map (\<lambda>i. drop (d i) (take (d (Suc i)) xs)) [0..<k]) = take (d k) xs"
  using assms(1)
proof (induction k)
  case 0
  show ?case by (simp add: assms(2))
next
  case (Suc k)
  have le: "d k \<le> d (Suc k)" by (rule Suc.prems) simp
  have "concat (map (\<lambda>i. drop (d i) (take (d (Suc i)) xs)) [0..<Suc k]) =
        take (d k) xs @ drop (d k) (take (d (Suc k)) xs)"
    using Suc by simp
  also have "take (d k) xs = take (d k) (take (d (Suc k)) xs)"
    using le by (simp add: min_def)
  also have "take (d k) (take (d (Suc k)) xs) @ drop (d k) (take (d (Suc k)) xs) = take (d (Suc k)) xs"
    by (rule append_take_drop_id)
  finally show ?case .
qed


lemma array_split_closed:
  assumes "0 < n"
  shows "array_split xs n =
         Inr (map (\<lambda>i. drop (div_point (length xs) (nat n) i)
                      (take (div_point (length xs) (nat n) (Suc i)) xs)) [0..<nat n])"
proof -
  let ?N = "length xs" and ?k = "nat n"
  let ?S = "replicate (?N mod ?k) (Suc (?N div ?k)) @ replicate (?k - ?N mod ?k) (?N div ?k)"
  from assms have k: "0 < ?k" by simp
  then have e: "?N mod ?k < ?k" by simp
  have len: "length ?S = ?k" using e by simp
  have d: "cumsum 0 ([0] @ ?S) ! i = div_point ?N ?k i" if "i \<le> ?k" for i
  proof -
    have "cumsum 0 ([0] @ ?S) ! i = sum_list (take i ?S)"
      using that len by (intro div_points_nth) simp
    also have "\<dots> = i * (?N div ?k) + min i (?N mod ?k)"
      using that e by (intro sum_take_sizes) simp
    finally show ?thesis by (simp add: div_point_def)
  qed
  have "map (\<lambda>i. drop (cumsum 0 ([0] @ ?S) ! i) (take (cumsum 0 ([0] @ ?S) ! (i + 1)) xs)) [0..<?k] =
        map (\<lambda>i. drop (div_point ?N ?k i) (take (div_point ?N ?k (Suc i)) xs)) [0..<?k]"
  proof (rule map_cong [OF refl])
    fix i assume "i \<in> set [0..<?k]"
    then have i: "i \<le> ?k" and i': "Suc i \<le> ?k" by simp_all
    have "cumsum 0 ([0] @ ?S) ! (i + 1) = div_point ?N ?k (Suc i)"
      using d [OF i'] by simp
    with d [OF i]
    show "drop (cumsum 0 ([0] @ ?S) ! i) (take (cumsum 0 ([0] @ ?S) ! (i + 1)) xs) =
          drop (div_point ?N ?k i) (take (div_point ?N ?k (Suc i)) xs)"
      by (simp only:)
  qed
  then show ?thesis
    using assms by (simp add: array_split_def Let_def)
qed

lemma div_point_mono: "div_point N k i \<le> div_point N k (Suc i)"
  by (simp add: div_point_def min_def)

lemma div_point_0: "div_point N k 0 = 0"
  by (simp add: div_point_def)

lemma div_point_last:
  assumes "0 < k"
  shows "div_point N k k = N"
proof -
  from assms have "N mod k < k" by simp
  then have "min k (N mod k) = N mod k" by simp
  then have "div_point N k k = k * (N div k) + N mod k"
    by (simp only: div_point_def)
  then show ?thesis by simp
qed



lemma array_split_length:
  assumes "0 < n" and "array_split xs n = Inr shards"
  shows "length shards = nat n"
  using assms by (auto simp: array_split_closed)

lemma array_split_concat:
  assumes "0 < n" and "array_split xs n = Inr shards"
  shows "concat shards = xs"
proof -
  from assms(1) have k: "0 < nat n" by simp
  have "concat shards = take (div_point (length xs) (nat n) (nat n)) xs"
    using assms by (auto simp: array_split_closed intro!: concat_slices div_point_mono div_point_0)
  then show ?thesis by (simp add: div_point_last [OF k])
qed


lemma array_split_ok: "0 < n \<Longrightarrow> \<exists>shards. array_split xs n = Inr shards"
  by (simp add: array_split_closed)

lemma array_split_error: "n \<le> 0 \<Longrightarrow> array_split xs n = Inl ValueError"
  by (simp add: array_split_def)

subsection \<open>The result of the parallel calls\<close>

lemma multi_core_fst:
  assumes "0 < cpu_count"
  shows "fst (augment_annotations_with_boundary_multi_core encode cpu_count xs f r w) =
         in_order encode f r xs"
proof -
  from assms have n: "0 < int cpu_count" by simp
  from array_split_ok [OF n] obtain shards where s: "array_split xs (int cpu_count) = Inr shards"
    by blast
  have c: "concat shards = xs" using n s by (rule array_split_concat)
  have g: "gather (map snd (map (\<lambda>(proc_id, annotation_set).
              augment_annotations_with_boundary_single_core encode proc_id annotation_set f r)
            (enumerate 0 shards))) [] = in_order encode f r xs"
    by (simp only: processes_snd gather_in_order c)
  show ?thesis
    using s g by (simp add: augment_annotations_with_boundary_multi_core_def Let_def)
qed

lemma add_boundary_skip:
  assumes "get_boundary coco"
  shows "add_boundary_multi_core encode cpu_count f ci coco cpu_num r w =
         (None, coco, w\<lparr>stdout := stdout w @ [Found_existing_boundaries_skipping]\<rparr>)"
  using assms by (simp add: add_boundary_multi_core_def)

lemma add_boundary_run:
  assumes "\<not> get_boundary coco" and "0 < min cpu_num (int cpu_count)"
  shows "fst (add_boundary_multi_core encode cpu_count f ci coco cpu_num r w) =
           (case in_order encode f r (dataset_annotations coco) of
              Inl e \<Rightarrow> Some e | Inr new \<Rightarrow> None)"
    and "fst (snd (add_boundary_multi_core encode cpu_count f ci coco cpu_num r w)) =
           (case in_order encode f r (dataset_annotations coco) of
              Inl e \<Rightarrow> coco
            | Inr new \<Rightarrow> coco\<lparr>dataset_annotations := new, index := ci new, get_boundary := True\<rparr>)"
proof -
  let ?xs = "dataset_annotations coco" and ?W = "min cpu_num (int cpu_count)"
  from array_split_ok [OF assms(2)] obtain shards where s: "array_split ?xs ?W = Inr shards"
    by blast
  have c: "concat shards = ?xs" using assms(2) s by (rule array_split_concat)
  have g: "gather (map snd (map (\<lambda>(proc_id, annotation_set).
              augment_annotations_with_boundary_single_core encode proc_id annotation_set f r)
            (enumerate 0 shards))) [] = in_order encode f r ?xs"
    by (simp only: processes_snd gather_in_order c)
  show "fst (add_boundary_multi_core encode cpu_count f ci coco cpu_num r w) =
           (case in_order encode f r ?xs of Inl e \<Rightarrow> Some e | Inr new \<Rightarrow> None)"
    using assms(1) s g by (simp add: add_boundary_multi_core_def Let_def split: sum.splits)
  show "fst (snd (add_boundary_multi_core encode cpu_count f ci coco cpu_num r w)) =
           (case in_order encode f r ?xs of
              Inl e \<Rightarrow> coco
            | Inr new \<Rightarrow> coco\<lparr>dataset_annotations := new, index := ci new, get_boundary := True\<rparr>)"
    using assms(1) s g by (simp add: add_boundary_multi_core_def Let_def split: sum.splits)
qed

lemma add_boundary_no_workers:
  assumes "\<not> get_boundary coco" and "min cpu_num (int cpu_count) \<le> 0"
  shows "add_boundary_multi_core encode cpu_count f ci coco cpu_num r w =
         (Some ValueError, coco, w\<lparr>stdout := stdout w @ [Adding_boundary_to_annotation]\<rparr>)"
  using assms by (simp add: add_boundary_multi_core_def Let_def array_split_error)

lemma find_None_all: "find P xs = None \<longleftrightarrow> list_all (\<lambda>x. \<not> P x) xs"
  by (induction xs) simp_all

lemma find_Some_set: "find P xs = Some x \<Longrightarrow> x \<in> set xs \<and> P x"
  by (induction xs) (auto split: if_splits)

lemma in_order_isl:
  "isl (in_order encode f r xs) \<longleftrightarrow> (\<exists>a\<in>set xs. isl (boundary_of encode f r a))"
proof (cases "find (\<lambda>a. isl (boundary_of encode f r a)) xs")
  case None
  then have "in_order encode f r xs = Inr (map (attach_boundary encode f r) xs)"
    by (simp add: in_order_def)
  moreover from None have "list_all (\<lambda>a. \<not> isl (boundary_of encode f r a)) xs"
    by (simp only: find_None_all)
  ultimately show ?thesis
    by (auto simp: list_all_iff)
next
  case (Some a)
  with find_Some_set [OF Some] show ?thesis
    by (auto simp: in_order_def)
qed


lemma in_order_all_ok:
  assumes "list_all (\<lambda>a. \<not> isl (boundary_of encode f r a)) xs"
  shows "in_order encode f r xs = Inr (map (attach_boundary encode f r) xs)"
proof -
  from assms have "find (\<lambda>a. isl (boundary_of encode f r a)) xs = None"
    by (simp add: find_None_all)
  then show ?thesis by (simp add: in_order_def)
qed

subsection \<open>Sequential and parallel processing agree\<close>

text \<open>
  Claim C2. Processing an annotation sequence with
  \<open>augment_annotations_with_boundary_single_core\<close> (one shard, whatever its \<open>proc_id\<close>)
  gives the same result as \<open>augment_annotations_with_boundary_multi_core\<close> on any
  positive number of cores: the same augmented annotations in the same order, or the
  same exception. The same holds for \<open>add_boundary_multi_core\<close> with any positive worker
  count on a dataset not yet augmented: it stores exactly the sequential result.
\<close>

theorem sequential_equals_parallel:
  assumes "0 < cpu_count" and "0 < cpu_num" and "\<not> get_boundary coco"
  shows "fst (augment_annotations_with_boundary_multi_core encode cpu_count annotations ann_to_mask r w) =
         snd (augment_annotations_with_boundary_single_core encode proc_id annotations ann_to_mask r) \<and>
         (case snd (augment_annotations_with_boundary_single_core encode proc_id
                      (dataset_annotations coco) ann_to_mask r) of
            Inl e \<Rightarrow>
              fst (add_boundary_multi_core encode cpu_count ann_to_mask ci coco cpu_num r w) = Some e
          | Inr new \<Rightarrow>
              fst (add_boundary_multi_core encode cpu_count ann_to_mask ci coco cpu_num r w) = None \<and>
              dataset_annotations
                (fst (snd (add_boundary_multi_core encode cpu_count ann_to_mask ci coco cpu_num r w))) = new)"
proof -
  from assms(1,2) have W: "0 < min cpu_num (int cpu_count)" by simp
  have a: "fst (augment_annotations_with_boundary_multi_core encode cpu_count annotations ann_to_mask r w) =
           snd (augment_annotations_with_boundary_single_core encode proc_id annotations ann_to_mask r)"
    using assms(1) by (simp only: multi_core_fst single_core_snd)
  have b: "(case in_order encode ann_to_mask r (dataset_annotations coco) of
            Inl e \<Rightarrow>
              fst (add_boundary_multi_core encode cpu_count ann_to_mask ci coco cpu_num r w) = Some e
          | Inr new \<Rightarrow>
              fst (add_boundary_multi_core encode cpu_count ann_to_mask ci coco cpu_num r w) = None \<and>
              dataset_annotations
                (fst (snd (add_boundary_multi_core encode cpu_count ann_to_mask ci coco cpu_num r w))) = new)"
    by (simp add: add_boundary_run [OF assms(3) W] split: sum.splits)
  from a b show ?thesis
    by (simp only: single_core_snd simp_thms)
qed

theorem sequential_equals_parallel_witness:
  "0 < (2::nat) \<and> (0::int) < 3 \<and>
   \<not> get_boundary \<lparr>dataset_annotations = [Map.empty, Map.empty] :: unit annotation list,
                    get_boundary = False, index = ()\<rparr> \<and>
   fst (augment_annotations_with_boundary_multi_core (\<lambda>m. Inr ()) 2 [Map.empty] (\<lambda>a. Inr [[1]]) 0
          \<lparr>stdout = [], provider_calls = []\<rparr>) =
   snd (augment_annotations_with_boundary_single_core (\<lambda>m. Inr ()) 0 [Map.empty] (\<lambda>a. Inr [[1]]) 0) \<and>
   (case snd (augment_annotations_with_boundary_single_core (\<lambda>m. Inr ()) 0
                (dataset_annotations \<lparr>dataset_annotations = [Map.empty, Map.empty] :: unit annotation list,
                    get_boundary = False, index = ()\<rparr>) (\<lambda>a. Inr [[1]]) 0) of
      Inl e \<Rightarrow>
        fst (add_boundary_multi_core (\<lambda>m. Inr ()) 2 (\<lambda>a. Inr [[1]]) (\<lambda>anns. ())
               \<lparr>dataset_annotations = [Map.empty, Map.empty], get_boundary = False, index = ()\<rparr>
               3 0 \<lparr>stdout = [], provider_calls = []\<rparr>) = Some e
    | Inr new \<Rightarrow>
        fst (add_boundary_multi_core (\<lambda>m. Inr ()) 2 (\<lambda>a. Inr [[1]]) (\<lambda>anns. ())
               \<lparr>dataset_annotations = [Map.empty, Map.empty], get_boundary = False, index = ()\<rparr>
               3 0 \<lparr>stdout = [], provider_calls = []\<rparr>) = None \<and>
        dataset_annotations
          (fst (snd (add_boundary_multi_core (\<lambda>m. Inr ()) 2 (\<lambda>a. Inr [[1]]) (\<lambda>anns. ())
               \<lparr>dataset_annotations = [Map.empty, Map.empty], get_boundary = False, index = ()\<rparr>
               3 0 \<lparr>stdout = [], provider_calls = []\<rparr>))) = new)"
proof -
  have h1: "0 < (2::nat)" and h2: "(0::int) < 3" by simp_all
  have h3: "\<not> get_boundary \<lparr>dataset_annotations = [Map.empty, Map.empty] :: unit annotation list,
                    get_boundary = False, index = ()\<rparr>" by simp
  show ?thesis
    by (intro conjI h1 h2 h3 sequential_equals_parallel [OF h1 h2 h3, THEN conjunct1]
          sequential_equals_parallel [OF h1 h2 h3, THEN conjunct2])
qed

subsection \<open>The partition keeps every annotation, in order\<close>



subsection \<open>A dataset already augmented is left alone\<close>

lemma add_boundary_success_flag:
  assumes "fst (add_boundary_multi_core encode cpu_count f ci coco cpu_num r w) = None"
  shows "get_boundary (fst (snd (add_boundary_multi_core encode cpu_count f ci coco cpu_num r w)))"
proof (cases "get_boundary coco")
  case True
  then show ?thesis by (simp add: add_boundary_skip)
next
  case False
  show ?thesis
  proof (cases "0 < min cpu_num (int cpu_count)")
    case W: True
    from assms show ?thesis
      by (simp add: add_boundary_run [OF False W] split: sum.splits)
  next
    case W: False
    then have "min cpu_num (int cpu_count) \<le> 0" by linarith
    with False assms show ?thesis
      by (simp add: add_boundary_no_workers)
  qed
qed

text \<open>
  Claim C4. When the flag \<open>get_boundary\<close> is already true, \<open>add_boundary_multi_core\<close>
  returns at once: no exception, the dataset (its annotations included) exactly as it
  was, no call of the mask provider, and the line "Found existing boundaries,
  skipping..." printed. Hence a second call after a call that returned normally changes
  nothing: the annotation collection after it is the one after the first call.
\<close>

theorem second_call_is_noop:
  "(get_boundary coco \<longrightarrow>
      add_boundary_multi_core encode cpu_count annToMask ci coco cpu_num r w =
        (None, coco, w\<lparr>stdout := stdout w @ [Found_existing_boundaries_skipping]\<rparr>)) \<and>
   (fst (add_boundary_multi_core encode cpu_count annToMask ci coco cpu_num r w) = None \<longrightarrow>
      (case add_boundary_multi_core encode cpu_count annToMask ci coco cpu_num r w of
         (e1, coco1, w1) \<Rightarrow>
           add_boundary_multi_core encode cpu_count annToMask ci coco1 cpu_num2 r2 w1 =
             (None, coco1, w1\<lparr>stdout := stdout w1 @ [Found_existing_boundaries_skipping]\<rparr>)))"
proof (intro conjI impI)
  assume "get_boundary coco"
  then show "add_boundary_multi_core encode cpu_count annToMask ci coco cpu_num r w =
        (None, coco, w\<lparr>stdout := stdout w @ [Found_existing_boundaries_skipping]\<rparr>)"
    by (rule add_boundary_skip)
next
  assume ok: "fst (add_boundary_multi_core encode cpu_count annToMask ci coco cpu_num r w) = None"
  obtain e1 coco1 w1 where
    res: "add_boundary_multi_core encode cpu_count annToMask ci coco cpu_num r w = (e1, coco1, w1)"
    by (cases "add_boundary_multi_core encode cpu_count annToMask ci coco cpu_num r w") auto
  from add_boundary_success_flag [OF ok] res have "get_boundary coco1" by simp
  then have "add_boundary_multi_core encode cpu_count annToMask ci coco1 cpu_num2 r2 w1 =
             (None, coco1, w1\<lparr>stdout := stdout w1 @ [Found_existing_boundaries_skipping]\<rparr>)"
    by (rule add_boundary_skip)
  with res show "case add_boundary_multi_core encode cpu_count annToMask ci coco cpu_num r w of
         (e1, coco1, w1) \<Rightarrow>
           add_boundary_multi_core encode cpu_count annToMask ci coco1 cpu_num2 r2 w1 =
             (None, coco1, w1\<lparr>stdout := stdout w1 @ [Found_existing_boundaries_skipping]\<rparr>)"
    by simp
qed


theorem second_call_is_noop_witness:
  "get_boundary \<lparr>dataset_annotations = [[''boundary'' \<mapsto> ()]] :: unit annotation list,
                  get_boundary = True, index = ()\<rparr> \<and>
   add_boundary_multi_core (\<lambda>m. Inr ()) 2 (\<lambda>a. Inr [[1]]) (\<lambda>anns. ())
     \<lparr>dataset_annotations = [[''boundary'' \<mapsto> ()]] :: unit annotation list,
      get_boundary = True, index = ()\<rparr> 16 0 \<lparr>stdout = [], provider_calls = []\<rparr> =
     (None,
      \<lparr>dataset_annotations = [[''boundary'' \<mapsto> ()]], get_boundary = True, index = ()\<rparr>,
      \<lparr>stdout = [], provider_calls = []\<rparr>
        \<lparr>stdout := stdout \<lparr>stdout = [], provider_calls = [] :: unit annotation list\<rparr> @
                     [Found_existing_boundaries_skipping]\<rparr>) \<and>
   fst (add_boundary_multi_core (\<lambda>m. Inr ()) 2 (\<lambda>a. Inr [[1]]) (\<lambda>anns. ())
          \<lparr>dataset_annotations = [Map.empty] :: unit annotation list,
           get_boundary = False, index = ()\<rparr> 16 0 \<lparr>stdout = [], provider_calls = []\<rparr>) = None \<and>
   (case add_boundary_multi_core (\<lambda>m. Inr ()) 2 (\<lambda>a. Inr [[1]]) (\<lambda>anns. ())
          \<lparr>dataset_annotations = [Map.empty] :: unit annotation list,
           get_boundary = False, index = ()\<rparr> 16 0 \<lparr>stdout = [], provider_calls = []\<rparr> of
      (e1, coco1, w1) \<Rightarrow>
        add_boundary_multi_core (\<lambda>m. Inr ()) 2 (\<lambda>a. Inr [[1]]) (\<lambda>anns. ()) coco1 16 0 w1 =
          (None, coco1, w1\<lparr>stdout := stdout w1 @ [Found_existing_boundaries_skipping]\<rparr>))"
proof -
  have h1: "get_boundary \<lparr>dataset_annotations = [[''boundary'' \<mapsto> ()]] :: unit annotation list,
                  get_boundary = True, index = ()\<rparr>"
    by simp
  have nf: "\<not> get_boundary \<lparr>dataset_annotations = [Map.empty] :: unit annotation list,
           get_boundary = False, index = ()\<rparr>"
    by simp
  have W: "0 < min (16::int) (int 2)" by simp
  have h2: "fst (add_boundary_multi_core (\<lambda>m. Inr ()) 2 (\<lambda>a. Inr [[1]]) (\<lambda>anns. ())
          \<lparr>dataset_annotations = [Map.empty] :: unit annotation list,
           get_boundary = False, index = ()\<rparr> 16 0 \<lparr>stdout = [], provider_calls = []\<rparr>) = None"
    by (simp add: add_boundary_run(1) [OF nf W] in_order_def boundary_of_def)
  show ?thesis
    by (intro conjI h1 h2
          second_call_is_noop [THEN conjunct1, THEN mp, OF h1]
          second_call_is_noop [THEN conjunct2, THEN mp, OF h2])
qed

subsection \<open>A failing worker fails the call and leaves the dataset\<close>

lemma array_split_Inr_pos:
  assumes "array_split xs n = Inr shards"
  shows "0 < n"
proof (rule ccontr)
  assume "\<not> 0 < n"
  then have "n \<le> 0" by simp
  then have "array_split xs n = Inl ValueError" by (rule array_split_error)
  with assms show False by simp
qed

text \<open>
  Claim C5. If the worker of any shard raises (the mask provider, the boundary
  extraction or the codec fails on one of its annotations), the call of
  \<open>add_boundary_multi_core\<close> ends with an exception and the dataset is exactly what it
  was: the flag stays false, the annotations are unchanged, nothing of the other
  workers' results is stored.
\<close>

theorem worker_failure_leaves_dataset:
  assumes "\<not> get_boundary coco"
    and "array_split (dataset_annotations coco) (min cpu_num (int cpu_count)) = Inr shards"
    and "i < length shards"
    and "snd (augment_annotations_with_boundary_single_core encode i (shards ! i) annToMask r) = Inl e"
  shows "(\<exists>e'. fst (add_boundary_multi_core encode cpu_count annToMask ci coco cpu_num r w) = Some e') \<and>
         fst (snd (add_boundary_multi_core encode cpu_count annToMask ci coco cpu_num r w)) = coco \<and>
         \<not> get_boundary (fst (snd (add_boundary_multi_core encode cpu_count annToMask ci coco cpu_num r w))) \<and>
         dataset_annotations (fst (snd (add_boundary_multi_core encode cpu_count annToMask ci coco cpu_num r w))) =
           dataset_annotations coco"
proof -
  have W: "0 < min cpu_num (int cpu_count)"
    using assms(2) by (rule array_split_Inr_pos)
  have c: "concat shards = dataset_annotations coco"
    using W assms(2) by (rule array_split_concat)
  from assms(4) have "isl (in_order encode annToMask r (shards ! i))"
    by (simp add: single_core_snd)
  then obtain a where a: "a \<in> set (shards ! i)" and bad: "isl (boundary_of encode annToMask r a)"
    by (auto simp: in_order_isl)
  from a assms(3) have "a \<in> set (concat shards)" by auto
  with bad c have "isl (in_order encode annToMask r (dataset_annotations coco))"
    by (auto simp: in_order_isl)
  then obtain e' where e': "in_order encode annToMask r (dataset_annotations coco) = Inl e'"
    by (cases "in_order encode annToMask r (dataset_annotations coco)") auto
  have 1: "fst (add_boundary_multi_core encode cpu_count annToMask ci coco cpu_num r w) = Some e'"
    by (simp add: add_boundary_run(1) [OF assms(1) W] e')
  have 2: "fst (snd (add_boundary_multi_core encode cpu_count annToMask ci coco cpu_num r w)) = coco"
    by (simp add: add_boundary_run(2) [OF assms(1) W] e')
  from 1 2 assms(1) show ?thesis by simp
qed

theorem worker_failure_leaves_dataset_witness:
  "\<not> get_boundary \<lparr>dataset_annotations = [Map.empty, [''bad'' \<mapsto> ()], Map.empty] :: unit annotation list,
                    get_boundary = False, index = ()\<rparr> \<and>
   array_split (dataset_annotations
       \<lparr>dataset_annotations = [Map.empty, [''bad'' \<mapsto> ()], Map.empty] :: unit annotation list,
        get_boundary = False, index = ()\<rparr>) (min 16 (int 2)) =
     Inr [[Map.empty, [''bad'' \<mapsto> ()]], [Map.empty]] \<and>
   0 < length ([[Map.empty, [''bad'' \<mapsto> ()]], [Map.empty]] :: unit annotation list list) \<and>
   snd (augment_annotations_with_boundary_single_core (\<lambda>m. Inr ()) 0
          ([[Map.empty, [''bad'' \<mapsto> ()]], [Map.empty]] ! 0)
          (\<lambda>a. if a ''bad'' = None then Inr [[1]] else Inl (Raised ''no mask'')) 0) =
     Inl (Raised ''no mask'') \<and>
   (\<exists>e'. fst (add_boundary_multi_core (\<lambda>m. Inr ()) 2
                (\<lambda>a. if a ''bad'' = None then Inr [[1]] else Inl (Raised ''no mask'')) (\<lambda>anns. ())
                \<lparr>dataset_annotations = [Map.empty, [''bad'' \<mapsto> ()], Map.empty] :: unit annotation list,
                 get_boundary = False, index = ()\<rparr> 16 0 \<lparr>stdout = [], provider_calls = []\<rparr>) = Some e') \<and>
   fst (snd (add_boundary_multi_core (\<lambda>m. Inr ()) 2
                (\<lambda>a. if a ''bad'' = None then Inr [[1]] else Inl (Raised ''no mask'')) (\<lambda>anns. ())
                \<lparr>dataset_annotations = [Map.empty, [''bad'' \<mapsto> ()], Map.empty] :: unit annotation list,
                 get_boundary = False, index = ()\<rparr> 16 0 \<lparr>stdout = [], provider_calls = []\<rparr>)) =
     \<lparr>dataset_annotations = [Map.empty, [''bad'' \<mapsto> ()], Map.empty], get_boundary = False, index = ()\<rparr>"
proof -
  let ?C = "\<lparr>dataset_annotations = [Map.empty, [''bad'' \<mapsto> ()], Map.empty] :: unit annotation list,
                    get_boundary = False, index = ()\<rparr>"
  let ?f = "\<lambda>a :: unit annotation. if a ''bad'' = None then Inr [[1]] else Inl (Raised ''no mask'')"
  have h1: "\<not> get_boundary ?C" by simp
  have h2: "array_split (dataset_annotations ?C) (min 16 (int 2)) =
     Inr [[Map.empty, [''bad'' \<mapsto> ()]], [Map.empty]]"
    by (simp add: array_split_closed div_point_def upt_rec)
  have h3: "0 < length ([[Map.empty, [''bad'' \<mapsto> ()]], [Map.empty]] :: unit annotation list list)"
    by simp
  have h4: "snd (augment_annotations_with_boundary_single_core (\<lambda>m. Inr ()) 0
          ([[Map.empty, [''bad'' \<mapsto> ()]], [Map.empty]] ! 0) ?f 0) = Inl (Raised ''no mask'')"
    by (simp add: augment_annotations_with_boundary_single_core_def)
  from worker_failure_leaves_dataset [OF h1 h2 h3 h4, of "\<lambda>anns. ()" "\<lparr>stdout = [], provider_calls = []\<rparr>"]
  have c1: "\<exists>e'. fst (add_boundary_multi_core (\<lambda>m. Inr ()) 2 ?f (\<lambda>anns. ()) ?C 16 0
                \<lparr>stdout = [], provider_calls = []\<rparr>) = Some e'"
    and c2: "fst (snd (add_boundary_multi_core (\<lambda>m. Inr ()) 2 ?f (\<lambda>anns. ()) ?C 16 0
                \<lparr>stdout = [], provider_calls = []\<rparr>)) = ?C"
    by blast+
  show ?thesis
    by (intro conjI h1 h2 h3 h4 c1 c2)
qed

subsection \<open>More workers than annotations\<close>

lemma div_point_many:
  assumes "N < k"
  shows "div_point N k i = min i N"
  using assms by (simp add: div_point_def)

lemma slice_one:
  "drop (min i (length xs)) (take (min (Suc i) (length xs)) xs) =
     (if i < length xs then [xs ! i] else [])"
proof (cases "i < length xs")
  case True
  then have "take (Suc i) xs = take i xs @ [xs ! i]"
    by (rule take_Suc_conv_app_nth)
  with True show ?thesis by (simp add: min_def)
next
  case False
  then show ?thesis by (simp add: min_def)
qed

lemma array_split_many_workers:
  assumes "int (length xs) < n" and "array_split xs n = Inr shards" and "i < length shards"
  shows "shards ! i = (if i < length xs then [xs ! i] else [])"
proof -
  from assms(1) have n: "0 < n" by linarith
  from assms(1) have k: "length xs < nat n" by linarith
  from assms(2) have s: "shards = map (\<lambda>i. drop (div_point (length xs) (nat n) i)
                      (take (div_point (length xs) (nat n) (Suc i)) xs)) [0..<nat n]"
    by (simp add: array_split_closed [OF n])
  with assms(3) have i: "i < nat n" by simp
  have "shards ! i = drop (min i (length xs)) (take (min (Suc i) (length xs)) xs)"
    using i unfolding s by (simp add: div_point_many [OF k])
  then show ?thesis by (simp only: slice_one)
qed

text \<open>
  Claim C10. With more workers than annotations (an empty annotation sequence included,
  for any positive worker count) \<open>array_split\<close> still returns one shard per worker:
  the first shards hold one annotation each and the others are empty. When the boundary
  data of every annotation can be computed, \<open>add_boundary_multi_core\<close> returns without an
  exception, stores the input annotations in their order, each with its boundary
  attached, and sets the flag; on an empty dataset it stores the empty collection and
  sets the flag.
\<close>

theorem degenerate_sizes:
  assumes "\<not> get_boundary coco"
    and "int (length (dataset_annotations coco)) < min cpu_num (int cpu_count)"
  shows "(\<exists>shards. array_split (dataset_annotations coco) (min cpu_num (int cpu_count)) = Inr shards \<and>
            length shards = nat (min cpu_num (int cpu_count)) \<and>
            (\<forall>i<length shards. shards ! i =
               (if i < length (dataset_annotations coco) then [dataset_annotations coco ! i] else [])) \<and>
            concat shards = dataset_annotations coco) \<and>
         (list_all (\<lambda>a. \<not> isl (boundary_of encode annToMask r a)) (dataset_annotations coco) \<longrightarrow>
            add_boundary_multi_core encode cpu_count annToMask ci coco cpu_num r w =
              (None,
               coco\<lparr>dataset_annotations := map (attach_boundary encode annToMask r) (dataset_annotations coco),
                    index := ci (map (attach_boundary encode annToMask r) (dataset_annotations coco)),
                    get_boundary := True\<rparr>,
               snd (snd (add_boundary_multi_core encode cpu_count annToMask ci coco cpu_num r w)))) \<and>
         (dataset_annotations coco = [] \<longrightarrow>
            add_boundary_multi_core encode cpu_count annToMask ci coco cpu_num r w =
              (None,
               coco\<lparr>dataset_annotations := [], index := ci [], get_boundary := True\<rparr>,
               snd (snd (add_boundary_multi_core encode cpu_count annToMask ci coco cpu_num r w))))"
proof -
  let ?xs = "dataset_annotations coco" and ?W = "min cpu_num (int cpu_count)"
  let ?run = "add_boundary_multi_core encode cpu_count annToMask ci coco cpu_num r w"
  from assms(2) have W: "0 < ?W" by linarith
  from array_split_ok [OF W] obtain shards where s: "array_split ?xs ?W = Inr shards"
    by blast
  have len: "length shards = nat ?W" using W s by (rule array_split_length)
  have each: "\<forall>i<length shards. shards ! i = (if i < length ?xs then [?xs ! i] else [])"
    using array_split_many_workers [OF assms(2) s] by blast
  have c: "concat shards = ?xs" using W s by (rule array_split_concat)
  have ok: "?run = (None,
               coco\<lparr>dataset_annotations := map (attach_boundary encode annToMask r) ?xs,
                    index := ci (map (attach_boundary encode annToMask r) ?xs),
                    get_boundary := True\<rparr>,
               snd (snd ?run))"
    if all: "list_all (\<lambda>a. \<not> isl (boundary_of encode annToMask r a)) ?xs"
  proof -
    have io: "in_order encode annToMask r ?xs = Inr (map (attach_boundary encode annToMask r) ?xs)"
      using all by (rule in_order_all_ok)
    have 1: "fst ?run = None"
      by (simp add: add_boundary_run(1) [OF assms(1) W] io)
    have 2: "fst (snd ?run) = coco\<lparr>dataset_annotations := map (attach_boundary encode annToMask r) ?xs,
                    index := ci (map (attach_boundary encode annToMask r) ?xs),
                    get_boundary := True\<rparr>"
      by (simp add: add_boundary_run(2) [OF assms(1) W] io)
    show ?thesis
      by (rule prod_eqI) (simp_all add: 1 2 prod_eq_iff)
  qed
  have empty: "?run = (None, coco\<lparr>dataset_annotations := [], index := ci [], get_boundary := True\<rparr>,
               snd (snd ?run))"
    if e: "?xs = []"
  proof -
    have "list_all (\<lambda>a. \<not> isl (boundary_of encode annToMask r a)) ?xs"
      by (simp add: e)
    from ok [OF this] show ?thesis by (simp add: e)
  qed
  from s len each c ok empty show ?thesis by blast
qed


theorem degenerate_sizes_witness:
  "\<not> get_boundary \<lparr>dataset_annotations = [Map.empty] :: unit annotation list,
                    get_boundary = False, index = ()\<rparr> \<and>
   int (length (dataset_annotations
          \<lparr>dataset_annotations = [Map.empty] :: unit annotation list,
           get_boundary = False, index = ()\<rparr>)) < min 16 (int 4) \<and>
   list_all (\<lambda>a. \<not> isl (boundary_of (\<lambda>m. Inr ()) (\<lambda>a. Inr [[1]]) 0 a))
     (dataset_annotations \<lparr>dataset_annotations = [Map.empty] :: unit annotation list,
                          get_boundary = False, index = ()\<rparr>) \<and>
   (\<exists>shards. array_split (dataset_annotations
                 \<lparr>dataset_annotations = [Map.empty] :: unit annotation list,
                  get_boundary = False, index = ()\<rparr>) (min 16 (int 4)) = Inr shards \<and>
      length shards = nat (min 16 (int 4)) \<and>
      (\<forall>i<length shards. shards ! i =
         (if i < length (dataset_annotations
                   \<lparr>dataset_annotations = [Map.empty] :: unit annotation list,
                    get_boundary = False, index = ()\<rparr>)
          then [dataset_annotations
                   \<lparr>dataset_annotations = [Map.empty] :: unit annotation list,
                    get_boundary = False, index = ()\<rparr> ! i] else [])) \<and>
      concat shards = dataset_annotations
                   \<lparr>dataset_annotations = [Map.empty] :: unit annotation list,
                    get_boundary = False, index = ()\<rparr>) \<and>
   fst (add_boundary_multi_core (\<lambda>m. Inr ()) 4 (\<lambda>a. Inr [[1]]) (\<lambda>anns. ())
          \<lparr>dataset_annotations = [Map.empty] :: unit annotation list,
           get_boundary = False, index = ()\<rparr> 16 0 \<lparr>stdout = [], provider_calls = []\<rparr>) = None \<and>
   fst (snd (add_boundary_multi_core (\<lambda>m. Inr ()) 4 (\<lambda>a. Inr [[1]]) (\<lambda>anns. ())
          \<lparr>dataset_annotations = [Map.empty] :: unit annotation list,
           get_boundary = False, index = ()\<rparr> 16 0 \<lparr>stdout = [], provider_calls = []\<rparr>)) =
     \<lparr>dataset_annotations = [[''boundary'' \<mapsto> ()]], get_boundary = True, index = ()\<rparr> \<and>
   dataset_annotations \<lparr>dataset_annotations = [] :: unit annotation list,
                         get_boundary = False, index = ()\<rparr> = [] \<and>
   fst (add_boundary_multi_core (\<lambda>m. Inr ()) 4 (\<lambda>a. Inr [[1]]) (\<lambda>anns. ())
          \<lparr>dataset_annotations = [] :: unit annotation list,
           get_boundary = False, index = ()\<rparr> 16 0 \<lparr>stdout = [], provider_calls = []\<rparr>) = None \<and>
   fst (snd (add_boundary_multi_core (\<lambda>m. Inr ()) 4 (\<lambda>a. Inr [[1]]) (\<lambda>anns. ())
          \<lparr>dataset_annotations = [] :: unit annotation list,
           get_boundary = False, index = ()\<rparr> 16 0 \<lparr>stdout = [], provider_calls = []\<rparr>)) =
     \<lparr>dataset_annotations = [], get_boundary = True, index = ()\<rparr>"
proof -
  let ?C = "\<lparr>dataset_annotations = [Map.empty] :: unit annotation list,
             get_boundary = False, index = ()\<rparr>"
  let ?E = "\<lparr>dataset_annotations = [] :: unit annotation list,
             get_boundary = False, index = ()\<rparr>"
  let ?w = "\<lparr>stdout = [], provider_calls = [] :: unit annotation list\<rparr>"
  have h1: "\<not> get_boundary ?C" and e1: "\<not> get_boundary ?E" by simp_all
  have h2: "int (length (dataset_annotations ?C)) < min 16 (int 4)"
    and e2: "int (length (dataset_annotations ?E)) < min 16 (int 4)" by simp_all
  have h3: "list_all (\<lambda>a. \<not> isl (boundary_of (\<lambda>m. Inr ()) (\<lambda>a. Inr [[1]]) 0 a))
              (dataset_annotations ?C)"
    by (simp add: boundary_of_def)
  have e3: "dataset_annotations ?E = []" by simp
  note A = degenerate_sizes [OF h1 h2, of "\<lambda>m. Inr ()" "\<lambda>a. Inr [[1]]" 0 "\<lambda>anns. ()" ?w]
  note B = degenerate_sizes [OF e1 e2, of "\<lambda>m. Inr ()" "\<lambda>a. Inr [[1]]" 0 "\<lambda>anns. ()" ?w]
  from A have a1: "\<exists>shards. array_split (dataset_annotations ?C) (min 16 (int 4)) = Inr shards \<and>
      length shards = nat (min 16 (int 4)) \<and>
      (\<forall>i<length shards. shards ! i =
         (if i < length (dataset_annotations ?C) then [dataset_annotations ?C ! i] else [])) \<and>
      concat shards = dataset_annotations ?C"
    by (rule conjunct1)
  from A h3 have a2: "add_boundary_multi_core (\<lambda>m. Inr ()) 4 (\<lambda>a. Inr [[1]]) (\<lambda>anns. ()) ?C 16 0 ?w =
      (None,
       ?C\<lparr>dataset_annotations := map (attach_boundary (\<lambda>m. Inr ()) (\<lambda>a. Inr [[1]]) 0) (dataset_annotations ?C),
           index := (),
           get_boundary := True\<rparr>,
       snd (snd (add_boundary_multi_core (\<lambda>m. Inr ()) 4 (\<lambda>a. Inr [[1]]) (\<lambda>anns. ()) ?C 16 0 ?w)))"
    by blast
  from B e3 have b2: "add_boundary_multi_core (\<lambda>m. Inr ()) 4 (\<lambda>a. Inr [[1]]) (\<lambda>anns. ()) ?E 16 0 ?w =
      (None, ?E\<lparr>dataset_annotations := [], index := (), get_boundary := True\<rparr>,
       snd (snd (add_boundary_multi_core (\<lambda>m. Inr ()) 4 (\<lambda>a. Inr [[1]]) (\<lambda>anns. ()) ?E 16 0 ?w)))"
    by blast
  have a3: "fst (add_boundary_multi_core (\<lambda>m. Inr ()) 4 (\<lambda>a. Inr [[1]]) (\<lambda>anns. ()) ?C 16 0 ?w) = None"
    by (subst a2) simp
  have a4: "fst (snd (add_boundary_multi_core (\<lambda>m. Inr ()) 4 (\<lambda>a. Inr [[1]]) (\<lambda>anns. ()) ?C 16 0 ?w)) =
     \<lparr>dataset_annotations = [[''boundary'' \<mapsto> ()]], get_boundary = True, index = ()\<rparr>"
    by (subst a2) (simp add: attach_boundary_def)
  have b3: "fst (add_boundary_multi_core (\<lambda>m. Inr ()) 4 (\<lambda>a. Inr [[1]]) (\<lambda>anns. ()) ?E 16 0 ?w) = None"
    by (subst b2) simp
  have b4: "fst (snd (add_boundary_multi_core (\<lambda>m. Inr ()) 4 (\<lambda>a. Inr [[1]]) (\<lambda>anns. ()) ?E 16 0 ?w)) =
     \<lparr>dataset_annotations = [], get_boundary = True, index = ()\<rparr>"
    by (subst b2) simp
  show ?thesis
    by (intro conjI h1 h2 h3 a1 a3 a4 e3 b3 b4)
qed

subsection \<open>The flag and the boundary fields\<close>






section \<open>Properties of the saved file\<close>

subsection \<open>The path of the result\<close>

lemma stem_suffix: "path_stem p @ path_suffix p = path_name p"
  by (simp add: path_stem_def path_suffix_def Let_def)

lemma stem_nonempty:
  assumes "path_name p \<noteq> []"
  shows "path_stem p \<noteq> []"
  using assms by (auto simp: path_stem_def Let_def)

lemma set_stem: "set (path_stem p) \<subseteq> set (path_name p)"
  by (auto simp: path_stem_def Let_def dest: in_set_takeD)

lemma set_suffix: "set (path_suffix p) \<subseteq> set (path_name p)"
  by (auto simp: path_suffix_def Let_def dest: in_set_dropD)

lemma split_sep_no_sep:
  assumes "CHR ''/'' \<notin> set s"
  shows "split_sep s = [s]"
  using assms by (induction s) auto

lemma parse_parts_component:
  assumes "CHR ''/'' \<notin> set s" and "s \<noteq> []" and "s \<noteq> ''.''"
  shows "parse_parts s = [s]"
  using assms by (simp add: parse_parts_def split_sep_no_sep)

lemma truediv_component:
  assumes "CHR ''/'' \<notin> set s" and "s \<noteq> []" and "s \<noteq> ''.''"
  shows "truediv p s = p @ [s]"
proof -
  from assms(2) obtain c cs where s: "s = c # cs" by (cases s) auto
  with assms(1) have "c \<noteq> CHR ''/''" by auto
  with s parse_parts_component [OF assms] show ?thesis
    by (simp add: truediv_def)
qed

lemma new_annotation_file_sibling:
  assumes "path_name annotation_file \<noteq> []"
    and "CHR ''/'' \<notin> set (path_name annotation_file)"
    and "stem_addon \<noteq> []"
    and "CHR ''/'' \<notin> set stem_addon"
  shows "new_annotation_file annotation_file stem_addon =
         path_parent annotation_file @
           [path_stem annotation_file @ stem_addon @ path_suffix annotation_file]"
proof -
  let ?n = "path_stem annotation_file @ stem_addon @ path_suffix annotation_file"
  have 1: "CHR ''/'' \<notin> set ?n"
    using assms(2,4) set_stem [of annotation_file] set_suffix [of annotation_file] by auto
  have 2: "?n \<noteq> []" using assms(3) by simp
  have two: "2 \<le> length ?n"
    using stem_nonempty [OF assms(1)] assms(3)
    by (cases "path_stem annotation_file"; cases stem_addon) simp_all
  have 3: "?n \<noteq> ''.''"
  proof
    assume "?n = ''.''"
    then have "length ?n = length ''.''" by (rule arg_cong)
    with two show False by simp
  qed
  show ?thesis
    unfolding new_annotation_file_def by (rule truediv_component [OF 1 2 3])
qed

lemma new_annotation_file_differs:
  assumes "path_name annotation_file \<noteq> []"
    and "CHR ''/'' \<notin> set (path_name annotation_file)"
    and "stem_addon \<noteq> []"
    and "CHR ''/'' \<notin> set stem_addon"
  shows "new_annotation_file annotation_file stem_addon \<noteq> annotation_file"
proof
  assume eq: "new_annotation_file annotation_file stem_addon = annotation_file"
  from assms(1) have ne: "annotation_file \<noteq> []" by (auto simp: path_name_def)
  then have split: "annotation_file = path_parent annotation_file @ [path_name annotation_file]"
    by (simp add: path_parent_def path_name_def)
  from eq new_annotation_file_sibling [OF assms]
  have "path_parent annotation_file @
           [path_stem annotation_file @ stem_addon @ path_suffix annotation_file] =
        path_parent annotation_file @ [path_name annotation_file]"
    using split by simp
  then have "path_stem annotation_file @ stem_addon @ path_suffix annotation_file =
             path_name annotation_file"
    by simp
  then have "length (path_stem annotation_file @ stem_addon @ path_suffix annotation_file) =
             length (path_stem annotation_file @ path_suffix annotation_file)"
    by (simp only: stem_suffix)
  with assms(3) show False by simp
qed

lemma empty_addon_same_file:
  assumes "path_name annotation_file \<noteq> []"
    and "CHR ''/'' \<notin> set (path_name annotation_file)"
    and "path_name annotation_file \<noteq> ''.''"
  shows "new_annotation_file annotation_file [] = annotation_file"
proof -
  from assms(1) have ne: "annotation_file \<noteq> []" by (auto simp: path_name_def)
  have "new_annotation_file annotation_file [] =
        truediv (path_parent annotation_file) (path_name annotation_file)"
    by (simp add: new_annotation_file_def stem_suffix)
  also have "\<dots> = path_parent annotation_file @ [path_name annotation_file]"
    using assms(2,1,3) by (rule truediv_component)
  also have "\<dots> = annotation_file"
    using ne by (simp add: path_parent_def path_name_def)
  finally show ?thesis .
qed


lemma save_frame:
  assumes "p \<noteq> new_annotation_file annotation_file stem_addon"
  shows "fst (snd (coco_add_boundaries_and_save_as_annotation_file encode cpu_count COCO annToMask
            createIndex anns_values decode annotation_file stem_addon fs w)) p = fs p"
  using assms
  by (simp add: coco_add_boundaries_and_save_as_annotation_file_def Let_def
        split: option.splits sum.splits prod.splits)

lemma save_success:
  assumes "fst (coco_add_boundaries_and_save_as_annotation_file encode cpu_count COCO annToMask
            createIndex anns_values decode annotation_file stem_addon fs w) = None"
  shows "\<exists>coco_json anns_b. fs annotation_file = Some coco_json \<and>
           fst (snd (coco_add_boundaries_and_save_as_annotation_file encode cpu_count COCO annToMask
              createIndex anns_values decode annotation_file stem_addon fs w)) =
           fs(new_annotation_file annotation_file stem_addon \<mapsto>
                coco_json\<lparr>json_annotations := anns_b\<rparr>)"
  using assms
  by (auto simp: coco_add_boundaries_and_save_as_annotation_file_def Let_def
        split: option.splits sum.splits prod.splits)

lemma save_run:
  assumes "fs annotation_file = Some coco_json" and "COCO coco_json = Inr coco"
    and "fst (add_boundary_multi_core encode cpu_count annToMask createIndex coco 16 (2 / 100) w) = None"
    and "decode_counts decode (anns_values (index (fst (snd
           (add_boundary_multi_core encode cpu_count annToMask createIndex coco 16 (2 / 100) w))))) =
         Inr anns_b"
  shows "fst (coco_add_boundaries_and_save_as_annotation_file encode cpu_count COCO annToMask
            createIndex anns_values decode annotation_file stem_addon fs w) = None"
    and "fst (snd (coco_add_boundaries_and_save_as_annotation_file encode cpu_count COCO annToMask
            createIndex anns_values decode annotation_file stem_addon fs w)) =
         fs(new_annotation_file annotation_file stem_addon \<mapsto> coco_json\<lparr>json_annotations := anns_b\<rparr>)"
proof -
  obtain e c w' where
    run: "add_boundary_multi_core encode cpu_count annToMask createIndex coco 16 (2 / 100) w = (e, c, w')"
    by (cases "add_boundary_multi_core encode cpu_count annToMask createIndex coco 16 (2 / 100) w") auto
  from assms(3,4) [unfolded run]
  have e: "e = None" and d: "decode_counts decode (anns_values (index c)) = Inr anns_b"
    by simp_all
  show "fst (coco_add_boundaries_and_save_as_annotation_file encode cpu_count COCO annToMask
            createIndex anns_values decode annotation_file stem_addon fs w) = None"
    using run assms(1,2) e d
    by (simp add: coco_add_boundaries_and_save_as_annotation_file_def Let_def)
  show "fst (snd (coco_add_boundaries_and_save_as_annotation_file encode cpu_count COCO annToMask
            createIndex anns_values decode annotation_file stem_addon fs w)) =
         fs(new_annotation_file annotation_file stem_addon \<mapsto> coco_json\<lparr>json_annotations := anns_b\<rparr>)"
    using run assms(1,2) e d
    by (simp add: coco_add_boundaries_and_save_as_annotation_file_def Let_def)
qed

subsection \<open>Where the result is written\<close>

text \<open>
  Claim C6, as stated, fails: with the empty suffix the path of the result is the path
  of the input, and the augmented document is written over the original file.
\<close>

theorem empty_suffix_overwrites_original:
  "new_annotation_file [''data'', ''instances.json''] [] = [''data'', ''instances.json''] \<and>
   fst (coco_add_boundaries_and_save_as_annotation_file
          (\<lambda>m. Inr ()) 2
          (\<lambda>doc. Inr \<lparr>dataset_annotations = json_annotations doc, get_boundary = False,
                       index = json_annotations doc\<rparr>)
          (\<lambda>a. Inr [[1]]) (\<lambda>anns. anns) (\<lambda>i. i) (\<lambda>b. Inr b)
          [''data'', ''instances.json''] []
          [[''data'', ''instances.json''] \<mapsto> \<lparr>json_annotations = [Map.empty], json_rest = ()\<rparr>]
          \<lparr>stdout = [], provider_calls = []\<rparr>) = None \<and>
   fst (snd (coco_add_boundaries_and_save_as_annotation_file
          (\<lambda>m. Inr ()) 2
          (\<lambda>doc. Inr \<lparr>dataset_annotations = json_annotations doc, get_boundary = False,
                       index = json_annotations doc\<rparr>)
          (\<lambda>a. Inr [[1]]) (\<lambda>anns. anns) (\<lambda>i. i) (\<lambda>b. Inr b)
          [''data'', ''instances.json''] []
          [[''data'', ''instances.json''] \<mapsto> \<lparr>json_annotations = [Map.empty], json_rest = ()\<rparr>]
          \<lparr>stdout = [], provider_calls = []\<rparr>)) [''data'', ''instances.json''] =
     Some \<lparr>json_annotations = [[''boundary'' \<mapsto> ()]], json_rest = ()\<rparr> \<and>
   Some \<lparr>json_annotations = [[''boundary'' \<mapsto> ()]], json_rest = ()\<rparr> \<noteq>
     [[''data'', ''instances.json''] \<mapsto> \<lparr>json_annotations = [Map.empty :: unit annotation],
                                           json_rest = ()\<rparr>] [''data'', ''instances.json'']"
proof -
  let ?P = "[''data'', ''instances.json'']"
  let ?doc = "\<lparr>json_annotations = [Map.empty :: unit annotation], json_rest = ()\<rparr>"
  let ?fs = "[?P \<mapsto> ?doc]"
  let ?E = "\<lambda>m :: mask. Inr () :: py_exception + unit"
  let ?F = "\<lambda>a :: unit annotation. Inr [[1]] :: py_exception + mask"
  let ?CI = "\<lambda>anns :: unit annotation list. anns"
  let ?COCO = "\<lambda>doc :: (unit, unit) coco_json.
      Inr \<lparr>dataset_annotations = json_annotations doc, get_boundary = False,
           index = json_annotations doc\<rparr> :: py_exception + (unit, unit annotation list) coco"
  let ?C = "\<lparr>dataset_annotations = [Map.empty :: unit annotation], get_boundary = False,
             index = [Map.empty :: unit annotation]\<rparr>"
  let ?w = "\<lparr>stdout = [], provider_calls = [] :: unit annotation list\<rparr>"
  have same: "new_annotation_file ?P [] = ?P"
    by (rule empty_addon_same_file) (simp_all add: path_name_def)
  have f: "?fs ?P = Some ?doc" by simp
  have c: "?COCO ?doc = Inr ?C" by simp
  have nf: "\<not> get_boundary ?C" by simp
  have W: "0 < min (16::int) (int 2)" by simp
  have io: "in_order ?E ?F (2 / 100) (dataset_annotations ?C) = Inr [[''boundary'' \<mapsto> ()]]"
    by (simp add: in_order_def boundary_of_def attach_boundary_def)
  have ok: "fst (add_boundary_multi_core ?E 2 ?F ?CI ?C 16 (2 / 100) ?w) = None"
    by (simp only: add_boundary_run(1) [OF nf W] io sum.case)
  have st: "fst (snd (add_boundary_multi_core ?E 2 ?F ?CI ?C 16 (2 / 100) ?w)) =
            ?C\<lparr>dataset_annotations := [[''boundary'' \<mapsto> ()]],
                index := [[''boundary'' \<mapsto> ()]], get_boundary := True\<rparr>"
    by (simp only: add_boundary_run(2) [OF nf W] io sum.case)
  have d: "decode_counts (\<lambda>b. Inr b) ((\<lambda>i. i) (index (fst (snd
             (add_boundary_multi_core ?E 2 ?F ?CI ?C 16 (2 / 100) ?w))))) =
           Inr [[''boundary'' \<mapsto> ()]]"
    unfolding st by simp
  note r = save_run [where COCO = ?COCO and fs = ?fs and annotation_file = ?P
      and stem_addon = "[]" and encode = ?E and cpu_count = 2 and annToMask = ?F
      and createIndex = ?CI and anns_values = "\<lambda>i. i" and decode = "\<lambda>b. Inr b"
      and coco = ?C and coco_json = ?doc and w = ?w
      and anns_b = "[[''boundary'' \<mapsto> ()]]", OF f c ok d]
  have r1: "fst (coco_add_boundaries_and_save_as_annotation_file ?E 2 ?COCO ?F ?CI (\<lambda>i. i)
              (\<lambda>b. Inr b) ?P [] ?fs ?w) = None"
    by (rule r(1))
  have r2: "fst (snd (coco_add_boundaries_and_save_as_annotation_file ?E 2 ?COCO ?F ?CI (\<lambda>i. i)
              (\<lambda>b. Inr b) ?P [] ?fs ?w)) ?P =
            Some \<lparr>json_annotations = [[''boundary'' \<mapsto> ()]], json_rest = ()\<rparr>"
    unfolding r(2) same by simp
  have ne: "Some \<lparr>json_annotations = [[''boundary'' \<mapsto> ()]], json_rest = ()\<rparr> \<noteq> ?fs ?P"
    by simp
  show ?thesis
    by (intro conjI same r1 r2 ne)
qed


text \<open>
  Claim C6, amended. For an input path whose file name is not empty, and a suffix that
  is not empty and holds no separator, the result is written to the file named
  \<open>stem + suffix + extension\<close> in the directory of the input (stem and extension making
  up the input's name); that path is not the input path, the call changes no other file,
  and the file at the input path is what it was.
\<close>

theorem saved_beside_original:
  assumes "path_name annotation_file \<noteq> []"
    and "CHR ''/'' \<notin> set (path_name annotation_file)"
    and "stem_addon \<noteq> []"
    and "CHR ''/'' \<notin> set stem_addon"
  shows "new_annotation_file annotation_file stem_addon =
           path_parent annotation_file @
             [path_stem annotation_file @ stem_addon @ path_suffix annotation_file] \<and>
         path_stem annotation_file @ path_suffix annotation_file = path_name annotation_file \<and>
         new_annotation_file annotation_file stem_addon \<noteq> annotation_file \<and>
         fst (snd (coco_add_boundaries_and_save_as_annotation_file encode cpu_count COCO annToMask
                createIndex anns_values decode annotation_file stem_addon fs w)) annotation_file =
           fs annotation_file \<and>
         (fst (coco_add_boundaries_and_save_as_annotation_file encode cpu_count COCO annToMask
                createIndex anns_values decode annotation_file stem_addon fs w) = None \<longrightarrow>
          (\<exists>coco_json anns_b. fs annotation_file = Some coco_json \<and>
             fst (snd (coco_add_boundaries_and_save_as_annotation_file encode cpu_count COCO annToMask
                createIndex anns_values decode annotation_file stem_addon fs w)) =
             fs(path_parent annotation_file @
                  [path_stem annotation_file @ stem_addon @ path_suffix annotation_file] \<mapsto>
                coco_json\<lparr>json_annotations := anns_b\<rparr>)))"
proof -
  note sib = new_annotation_file_sibling [OF assms]
  have diff: "new_annotation_file annotation_file stem_addon \<noteq> annotation_file"
    using assms by (rule new_annotation_file_differs)
  then have "annotation_file \<noteq> new_annotation_file annotation_file stem_addon"
    by (rule not_sym)
  then have kept: "fst (snd (coco_add_boundaries_and_save_as_annotation_file encode cpu_count COCO
        annToMask createIndex anns_values decode annotation_file stem_addon fs w)) annotation_file =
      fs annotation_file"
    by (rule save_frame)
  have written: "\<exists>coco_json anns_b. fs annotation_file = Some coco_json \<and>
             fst (snd (coco_add_boundaries_and_save_as_annotation_file encode cpu_count COCO annToMask
                createIndex anns_values decode annotation_file stem_addon fs w)) =
             fs(path_parent annotation_file @
                  [path_stem annotation_file @ stem_addon @ path_suffix annotation_file] \<mapsto>
                coco_json\<lparr>json_annotations := anns_b\<rparr>)"
    if "fst (coco_add_boundaries_and_save_as_annotation_file encode cpu_count COCO annToMask
                createIndex anns_values decode annotation_file stem_addon fs w) = None"
    using save_success [OF that] unfolding sib .
  from sib stem_suffix diff kept written show ?thesis by blast
qed


theorem saved_beside_original_witness:
  "path_name [''data'', ''instances.json''] \<noteq> [] \<and>
   CHR ''/'' \<notin> set (path_name [''data'', ''instances.json'']) \<and>
   ''_b'' \<noteq> [] \<and> CHR ''/'' \<notin> set ''_b'' \<and>
   new_annotation_file [''data'', ''instances.json''] ''_b'' = [''data'', ''instances_b.json''] \<and>
   new_annotation_file [''data'', ''instances.json''] ''_b'' =
     path_parent [''data'', ''instances.json''] @
       [path_stem [''data'', ''instances.json''] @ ''_b'' @ path_suffix [''data'', ''instances.json'']] \<and>
   new_annotation_file [''data'', ''instances.json''] ''_b'' \<noteq> [''data'', ''instances.json''] \<and>
   fst (snd (coco_add_boundaries_and_save_as_annotation_file
          (\<lambda>m. Inr ()) 2
          (\<lambda>doc. Inr \<lparr>dataset_annotations = json_annotations doc, get_boundary = False,
                       index = json_annotations doc\<rparr>)
          (\<lambda>a. Inr [[1]]) (\<lambda>anns. anns) (\<lambda>i. i) (\<lambda>b. Inr b)
          [''data'', ''instances.json''] ''_b''
          [[''data'', ''instances.json''] \<mapsto> \<lparr>json_annotations = [Map.empty], json_rest = ()\<rparr>]
          \<lparr>stdout = [], provider_calls = []\<rparr>)) [''data'', ''instances.json''] =
     [[''data'', ''instances.json''] \<mapsto> \<lparr>json_annotations = [Map.empty :: unit annotation],
                                           json_rest = ()\<rparr>] [''data'', ''instances.json''] \<and>
   fst (coco_add_boundaries_and_save_as_annotation_file
          (\<lambda>m. Inr ()) 2
          (\<lambda>doc. Inr \<lparr>dataset_annotations = json_annotations doc, get_boundary = False,
                       index = json_annotations doc\<rparr>)
          (\<lambda>a. Inr [[1]]) (\<lambda>anns. anns) (\<lambda>i. i) (\<lambda>b. Inr b)
          [''data'', ''instances.json''] ''_b''
          [[''data'', ''instances.json''] \<mapsto> \<lparr>json_annotations = [Map.empty], json_rest = ()\<rparr>]
          \<lparr>stdout = [], provider_calls = []\<rparr>) = None"
proof -
  let ?P = "[''data'', ''instances.json'']"
  let ?doc = "\<lparr>json_annotations = [Map.empty :: unit annotation], json_rest = ()\<rparr>"
  let ?fs = "[?P \<mapsto> ?doc]"
  let ?E = "\<lambda>m :: mask. Inr () :: py_exception + unit"
  let ?F = "\<lambda>a :: unit annotation. Inr [[1]] :: py_exception + mask"
  let ?CI = "\<lambda>anns :: unit annotation list. anns"
  let ?COCO = "\<lambda>doc :: (unit, unit) coco_json.
      Inr \<lparr>dataset_annotations = json_annotations doc, get_boundary = False,
           index = json_annotations doc\<rparr> :: py_exception + (unit, unit annotation list) coco"
  let ?C = "\<lparr>dataset_annotations = [Map.empty :: unit annotation], get_boundary = False,
             index = [Map.empty :: unit annotation]\<rparr>"
  let ?w = "\<lparr>stdout = [], provider_calls = [] :: unit annotation list\<rparr>"
  have h1: "path_name ?P \<noteq> []" and h2: "CHR ''/'' \<notin> set (path_name ?P)"
    by (simp_all add: path_name_def)
  have h3: "''_b'' \<noteq> []" and h4: "CHR ''/'' \<notin> set ''_b''" by simp_all
  have v: "new_annotation_file ?P ''_b'' = [''data'', ''instances_b.json'']"
    by code_simp
  note T = saved_beside_original [OF h1 h2 h3 h4, where encode = ?E and cpu_count = 2
      and COCO = ?COCO and annToMask = ?F and createIndex = ?CI and anns_values = "\<lambda>i. i"
      and decode = "\<lambda>b. Inr b" and fs = ?fs and w = ?w]
  from T have t1: "new_annotation_file ?P ''_b'' =
      path_parent ?P @ [path_stem ?P @ ''_b'' @ path_suffix ?P]"
    by (rule conjunct1)
  from T have t3: "new_annotation_file ?P ''_b'' \<noteq> ?P"
    by blast
  from T have t4: "fst (snd (coco_add_boundaries_and_save_as_annotation_file ?E 2 ?COCO ?F ?CI
      (\<lambda>i. i) (\<lambda>b. Inr b) ?P ''_b'' ?fs ?w)) ?P = ?fs ?P"
    by blast
  have f: "?fs ?P = Some ?doc" by simp
  have c: "?COCO ?doc = Inr ?C" by simp
  have nf: "\<not> get_boundary ?C" by simp
  have W: "0 < min (16::int) (int 2)" by simp
  have io: "in_order ?E ?F (2 / 100) (dataset_annotations ?C) = Inr [[''boundary'' \<mapsto> ()]]"
    by (simp add: in_order_def boundary_of_def attach_boundary_def)
  have ok: "fst (add_boundary_multi_core ?E 2 ?F ?CI ?C 16 (2 / 100) ?w) = None"
    by (simp only: add_boundary_run(1) [OF nf W] io sum.case)
  have st: "fst (snd (add_boundary_multi_core ?E 2 ?F ?CI ?C 16 (2 / 100) ?w)) =
            ?C\<lparr>dataset_annotations := [[''boundary'' \<mapsto> ()]],
                index := [[''boundary'' \<mapsto> ()]], get_boundary := True\<rparr>"
    by (simp only: add_boundary_run(2) [OF nf W] io sum.case)
  have d: "decode_counts (\<lambda>b. Inr b) ((\<lambda>i. i) (index (fst (snd
             (add_boundary_multi_core ?E 2 ?F ?CI ?C 16 (2 / 100) ?w))))) =
           Inr [[''boundary'' \<mapsto> ()]]"
    unfolding st by simp
  have r1: "fst (coco_add_boundaries_and_save_as_annotation_file ?E 2 ?COCO ?F ?CI (\<lambda>i. i)
              (\<lambda>b. Inr b) ?P ''_b'' ?fs ?w) = None"
    by (rule save_run(1) [where COCO = ?COCO and fs = ?fs and annotation_file = ?P
      and stem_addon = "''_b''" and encode = ?E and cpu_count = 2 and annToMask = ?F
      and createIndex = ?CI and anns_values = "\<lambda>i. i" and decode = "\<lambda>b. Inr b"
      and coco = ?C and coco_json = ?doc and w = ?w
      and anns_b = "[[''boundary'' \<mapsto> ()]]", OF f c ok d])
  show ?thesis
    by (intro conjI h1 h2 h3 h4 v t1 t3 t4 r1)
qed

end
